theory Spec2Isabelle
  imports Complex_Main
begin

section \<open>The single-interval countdown: class Timer of background/Timer.js\<close>

text \<open>
  Times in seconds are rationals and readings of the millisecond clock
  \<^verbatim>\<open>Date.now()\<close> are integers; the sums and differences of the countdown are taken
  exactly. The conversion of configured minutes to whole seconds goes through a floor, so
  there the rounding of the script's binary64 product is modelled (\<open>binary64\<close>,
  \<open>secondsOf\<close> below). The enumerations \<^verbatim>\<open>TimerState\<close> and \<^verbatim>\<open>Phase\<close> are
  built by a helper class that is imported from another file; all that is used of them
  here is that their members are pairwise distinct and distinct from \<^verbatim>\<open>null\<close>.
\<close>

datatype TimerState = Stopped | Running | Paused

text \<open>
  The fields assigned by the constructor of \<^verbatim>\<open>Timer\<close>. A field holding
  \<^verbatim>\<open>null\<close> is \<open>None\<close>. \<open>hasListeners\<close> is the listener registry the
  class inherits from its event emitter, as far as the script uses it: \<^verbatim>\<open>observe(this)\<close>
  of the owning sequencer registers handlers for all seven events, \<^verbatim>\<open>removeAllListeners()\<close>
  drops them.
\<close>

record Timer =
  state :: TimerState
  duration :: rat
  tick :: rat
  tickInterval :: "nat option"
  expireTimeout :: "nat option"
  periodStartTime :: "int option"
  remaining :: "rat option"
  hasListeners :: bool

text \<open>
  The host's scheduler: \<^verbatim>\<open>setTimeout\<close> and \<^verbatim>\<open>setInterval\<close> hand out
  fresh handles and keep the callback pending (with its delay in milliseconds) until it is
  cleared; a timeout also leaves the list when it fires.
\<close>

record Scheduler =
  nextId :: nat
  timeouts :: "(nat \<times> rat) list"
  intervals :: "(nat \<times> rat) list"

datatype TimerEvent =
    EvStart rat rat
  | EvStop
  | EvPause rat rat
  | EvResume rat rat
  | EvTick rat rat
  | EvExpire rat rat
  | EvChange

definition Timer_new :: "rat \<Rightarrow> rat \<Rightarrow> Timer" where
  "Timer_new d tk =
     \<lparr> state = Stopped, duration = d, tick = tk, tickInterval = None, expireTimeout = None,
       periodStartTime = None, remaining = None, hasListeners = False \<rparr>"

definition setTimeout :: "rat \<Rightarrow> Scheduler \<Rightarrow> nat \<times> Scheduler" where
  "setTimeout ms s =
     (nextId s, s\<lparr> nextId := Suc (nextId s), timeouts := timeouts s @ [(nextId s, ms)] \<rparr>)"

definition setInterval :: "rat \<Rightarrow> Scheduler \<Rightarrow> nat \<times> Scheduler" where
  "setInterval ms s =
     (nextId s, s\<lparr> nextId := Suc (nextId s), intervals := intervals s @ [(nextId s, ms)] \<rparr>)"

definition clearTimeout :: "nat option \<Rightarrow> Scheduler \<Rightarrow> Scheduler" where
  "clearTimeout h s =
     (case h of None \<Rightarrow> s
      | Some k \<Rightarrow> s\<lparr> timeouts := filter (\<lambda>e. fst e \<noteq> k) (timeouts s) \<rparr>)"

definition clearInterval :: "nat option \<Rightarrow> Scheduler \<Rightarrow> Scheduler" where
  "clearInterval h s =
     (case h of None \<Rightarrow> s
      | Some k \<Rightarrow> s\<lparr> intervals := filter (\<lambda>e. fst e \<noteq> k) (intervals s) \<rparr>)"

text \<open>Arithmetic on a field that may hold \<^verbatim>\<open>null\<close>: the script's language reads it as 0.\<close>

definition numOf :: "rat option \<Rightarrow> rat" where
  "numOf v = (case v of None \<Rightarrow> 0 | Some x \<Rightarrow> x)"

definition msOf :: "int option \<Rightarrow> int" where
  "msOf v = (case v of None \<Rightarrow> 0 | Some x \<Rightarrow> x)"

text \<open>\<^verbatim>\<open>(Date.now() - this.periodStartTime) / 1000\<close>: the running period in seconds.\<close>

definition periodLength :: "int \<Rightarrow> Timer \<Rightarrow> rat" where
  "periodLength now t = of_int (now - msOf (periodStartTime t)) / 1000"

fun setExpireTimeout :: "rat \<Rightarrow> Timer \<times> Scheduler \<Rightarrow> Timer \<times> Scheduler" where
  "setExpireTimeout seconds (t, s) =
     (let (h, s') = setTimeout (seconds * 1000) s in (t\<lparr> expireTimeout := Some h \<rparr>, s'))"

fun setTickInterval :: "rat \<Rightarrow> Timer \<times> Scheduler \<Rightarrow> Timer \<times> Scheduler" where
  "setTickInterval seconds (t, s) =
     (let (h, s') = setInterval (seconds * 1000) s in (t\<lparr> tickInterval := Some h \<rparr>, s'))"

text \<open>
  Every operation takes the timer and the scheduler and returns both, with the events it
  emitted, in order. \<open>now\<close> is what \<^verbatim>\<open>Date.now()\<close> returns during the call.
\<close>

fun Timer_start :: "int \<Rightarrow> Timer \<times> Scheduler \<Rightarrow> (Timer \<times> Scheduler) \<times> TimerEvent list" where
  "Timer_start now (t, s) =
     (if state t \<noteq> Stopped then ((t, s), [])
      else
        let (t1, s1) = setExpireTimeout (duration t) (t, s);
            (t2, s2) = setTickInterval (tick t1) (t1, s1);
            t3 = t2\<lparr> remaining := Some (duration t2) \<rparr>;
            t4 = t3\<lparr> state := Running \<rparr>;
            t5 = t4\<lparr> periodStartTime := Some now \<rparr>
        in ((t5, s2), [EvStart 0 (numOf (remaining t5)), EvChange]))"

fun Timer_stop :: "Timer \<times> Scheduler \<Rightarrow> (Timer \<times> Scheduler) \<times> TimerEvent list" where
  "Timer_stop (t, s) =
     (if state t = Stopped then ((t, s), [])
      else
        let s1 = clearInterval (tickInterval t) s;
            s2 = clearTimeout (expireTimeout t) s1;
            t1 = t\<lparr> tickInterval := None, expireTimeout := None,
                    periodStartTime := None, remaining := None \<rparr>;
            t2 = t1\<lparr> state := Stopped \<rparr>
        in ((t2, s2), [EvStop, EvChange]))"

fun Timer_pause :: "int \<Rightarrow> Timer \<times> Scheduler \<Rightarrow> (Timer \<times> Scheduler) \<times> TimerEvent list" where
  "Timer_pause now (t, s) =
     (if state t \<noteq> Running then ((t, s), [])
      else
        let s1 = clearInterval (tickInterval t) s;
            s2 = clearTimeout (expireTimeout t) s1;
            t1 = t\<lparr> remaining := Some (numOf (remaining t) - periodLength now t) \<rparr>;
            t2 = t1\<lparr> state := Paused, periodStartTime := None \<rparr>;
            elapsed = duration t2 - numOf (remaining t2)
        in ((t2, s2), [EvPause elapsed (numOf (remaining t2)), EvChange]))"

fun Timer_resume :: "int \<Rightarrow> Timer \<times> Scheduler \<Rightarrow> (Timer \<times> Scheduler) \<times> TimerEvent list" where
  "Timer_resume now (t, s) =
     (if state t \<noteq> Paused then ((t, s), [])
      else
        let (t1, s1) = setExpireTimeout (numOf (remaining t)) (t, s);
            (t2, s2) = setTickInterval (tick t1) (t1, s1);
            t3 = t2\<lparr> state := Running, periodStartTime := Some now \<rparr>;
            elapsed = duration t3 - numOf (remaining t3)
        in ((t3, s2), [EvResume elapsed (numOf (remaining t3)), EvChange]))"

fun Timer_reset :: "int \<Rightarrow> Timer \<times> Scheduler \<Rightarrow> (Timer \<times> Scheduler) \<times> TimerEvent list" where
  "Timer_reset now w =
     (let (w1, evs1) = Timer_stop w;
          (w2, evs2) = Timer_start now w1
      in (w2, evs1 @ evs2))"

text \<open>The body of the closure that \<^verbatim>\<open>setExpireTimeout\<close> schedules.\<close>

fun expireCallback :: "Timer \<times> Scheduler \<Rightarrow> (Timer \<times> Scheduler) \<times> TimerEvent list" where
  "expireCallback (t, s) =
     (let s1 = clearInterval (tickInterval t) s;
          s2 = clearTimeout (expireTimeout t) s1;
          t1 = t\<lparr> tickInterval := None, expireTimeout := None,
                  periodStartTime := None, remaining := None \<rparr>;
          t2 = t1\<lparr> state := Stopped \<rparr>
      in ((t2, s2), [EvExpire (duration t2) 0, EvChange]))"

text \<open>The body of the closure that \<^verbatim>\<open>setTickInterval\<close> schedules.\<close>

fun tickCallback :: "int \<Rightarrow> Timer \<times> Scheduler \<Rightarrow> (Timer \<times> Scheduler) \<times> TimerEvent list" where
  "tickCallback now (t, s) =
     (let remaining' = numOf (remaining t) - periodLength now t;
          elapsed = duration t - remaining'
      in ((t, s), [EvTick elapsed remaining']))"

text \<open>
  The scheduler runs a callback only while its handle is pending. A timeout that fires
  is no longer pending afterwards; an interval stays.
\<close>

fun fireExpire :: "nat \<Rightarrow> Timer \<times> Scheduler \<Rightarrow> (Timer \<times> Scheduler) \<times> TimerEvent list" where
  "fireExpire h (t, s) =
     (if h \<in> fst ` set (timeouts s) then expireCallback (t, clearTimeout (Some h) s)
      else ((t, s), []))"

fun fireTick :: "nat \<Rightarrow> int \<Rightarrow> Timer \<times> Scheduler \<Rightarrow> (Timer \<times> Scheduler) \<times> TimerEvent list" where
  "fireTick h now (t, s) =
     (if h \<in> fst ` set (intervals s) then tickCallback now (t, s) else ((t, s), []))"

text \<open>A driver: the calls a client and the scheduler can make on one timer.\<close>

datatype TimerOp =
    OpStart int
  | OpStop
  | OpPause int
  | OpResume int
  | OpReset int
  | OpTick nat int
  | OpExpire nat

fun runOp :: "TimerOp \<Rightarrow> Timer \<times> Scheduler \<Rightarrow> (Timer \<times> Scheduler) \<times> TimerEvent list" where
  "runOp (OpStart now) w = Timer_start now w"
| "runOp OpStop w = Timer_stop w"
| "runOp (OpPause now) w = Timer_pause now w"
| "runOp (OpResume now) w = Timer_resume now w"
| "runOp (OpReset now) w = Timer_reset now w"
| "runOp (OpTick h now) w = fireTick h now w"
| "runOp (OpExpire h) w = fireExpire h w"

fun runOps :: "TimerOp list \<Rightarrow> (Timer \<times> Scheduler) \<times> TimerEvent list
    \<Rightarrow> (Timer \<times> Scheduler) \<times> TimerEvent list" where
  "runOps [] r = r"
| "runOps (x # xs) (w, acc) = (let (w', evs) = runOp x w in runOps xs (w', acc @ evs))"

definition emptyScheduler :: Scheduler where
  "emptyScheduler = \<lparr> nextId = 0, timeouts = [], intervals = [] \<rparr>"

text \<open>The two invariants the data model states for the countdown.\<close>

definition timerInvariant :: "Timer \<Rightarrow> bool" where
  "timerInvariant t =
     ((remaining t = None) = (state t = Stopped) \<and>
      (periodStartTime t \<noteq> None) = (state t = Running))"

text \<open>
  Reading the emitted events as a trace: \<open>changeFollows P\<close> holds of a trace when every
  event that satisfies \<open>P\<close> has a successor and that successor is \<^verbatim>\<open>change\<close>.
\<close>

fun changeFollows :: "(TimerEvent \<Rightarrow> bool) \<Rightarrow> TimerEvent list \<Rightarrow> bool" where
  "changeFollows P [] = True"
| "changeFollows P (e # es) =
     ((P e \<longrightarrow> (case es of [] \<Rightarrow> False | e' # _ \<Rightarrow> e' = EvChange)) \<and> changeFollows P es)"

text \<open>The six named notifications (everything but \<^verbatim>\<open>change\<close> itself).\<close>

definition notifies :: "TimerEvent \<Rightarrow> bool" where
  "notifies e = (case e of EvChange \<Rightarrow> False | _ \<Rightarrow> True)"

text \<open>The five of them that report a transition of the timer: all but \<^verbatim>\<open>tick\<close>.\<close>

definition notifiesState :: "TimerEvent \<Rightarrow> bool" where
  "notifiesState e = (case e of EvChange \<Rightarrow> False | EvTick x y \<Rightarrow> False | _ \<Rightarrow> True)"

text \<open>A trace in which no \<^verbatim>\<open>tick\<close> has \<^verbatim>\<open>change\<close> as its successor.\<close>

fun noChangeAfterTick :: "TimerEvent list \<Rightarrow> bool" where
  "noChangeAfterTick [] = True"
| "noChangeAfterTick [e] = True"
| "noChangeAfterTick (e # e' # es) =
     ((case e of EvTick x y \<Rightarrow> e' \<noteq> EvChange | _ \<Rightarrow> True) \<and> noChangeAfterTick (e' # es))"


section \<open>The phase sequencer: class PomodoroTimer\<close>

datatype Phase = Focus | ShortBreak | LongBreak

text \<open>
  The settings object \<^verbatim>\<open>{focus: {duration}, shortBreak: {duration}, longBreak:
  {duration, interval}}\<close>, durations in minutes. An absent \<^verbatim>\<open>interval\<close> is \<open>None\<close>.
\<close>

record Settings =
  focus_duration :: rat
  shortBreak_duration :: rat
  longBreak_duration :: rat
  longBreak_interval :: "int option"

text \<open>
  The generator object returned by \<^verbatim>\<open>createTimers()\<close>, as the place where it is
  suspended: not yet begun, at the first \<^verbatim>\<open>yield\<close> of the \<^verbatim>\<open>for\<close> body (with
  the loop index \<open>i\<close>), at the second one, or at the \<^verbatim>\<open>yield\<close> after the long break.
  The locals \<^verbatim>\<open>settings\<close> and \<^verbatim>\<open>interval\<close> are read once from
  \<^verbatim>\<open>this.settings\<close>, which is assigned by the constructor only, so the model reads
  them from the settings each time.
\<close>

datatype Generator = AtEntry | AtFocus int | AtShortBreak int | AtLongBreak

text \<open>Truth value of \<^verbatim>\<open>interval\<close>: absent and 0 are false, every other number is true.\<close>

definition truthy :: "int option \<Rightarrow> bool" where
  "truthy v = (case v of None \<Rightarrow> False | Some n \<Rightarrow> n \<noteq> 0)"

text \<open>The loop test \<^verbatim>\<open>!interval || (i < interval)\<close>.\<close>

definition loopTest :: "int option \<Rightarrow> int \<Rightarrow> bool" where
  "loopTest interval i =
     (\<not> truthy interval \<or> (case interval of None \<Rightarrow> False | Some n \<Rightarrow> i < n))"

text \<open>
  The generator function \<^verbatim>\<open>*createTimers()\<close> is modelled by what one resumption
  of its body does (\<open>createTimers\<close> below): what it assigns to \<^verbatim>\<open>_phase\<close> and
  \<^verbatim>\<open>nextPhase\<close>, the minutes of the timer it builds, and where it suspends again.
\<close>

record Yield =
  yPhase :: Phase
  yNext :: Phase
  yMinutes :: rat
  yGen :: Generator

text \<open>
  Control reaches the loop test with index \<open>i\<close>: either the body runs to its first
  \<^verbatim>\<open>yield\<close>, or the loop is left and, \<^verbatim>\<open>settings.longBreak\<close> being an object,
  the long break is produced.
\<close>

definition atLoopTest :: "Settings \<Rightarrow> int \<Rightarrow> Yield" where
  "atLoopTest st i =
     (if loopTest (longBreak_interval st) i
      then \<lparr> yPhase = Focus, yNext = ShortBreak, yMinutes = focus_duration st, yGen = AtFocus i \<rparr>
      else \<lparr> yPhase = LongBreak, yNext = Focus, yMinutes = longBreak_duration st,
             yGen = AtLongBreak \<rparr>)"

fun createTimers :: "Settings \<Rightarrow> Generator \<Rightarrow> Yield" where
  "createTimers st AtEntry = atLoopTest st 0"
| "createTimers st (AtFocus i) =
     \<lparr> yPhase = ShortBreak,
       yNext = (if truthy (longBreak_interval st) \<and>
                   (case longBreak_interval st of None \<Rightarrow> False | Some n \<Rightarrow> i = n - 1)
                then LongBreak else Focus),
       yMinutes = shortBreak_duration st, yGen = AtShortBreak i \<rparr>"
| "createTimers st (AtShortBreak i) =
     atLoopTest st (if truthy (longBreak_interval st) then i + 1 else i)"
| "createTimers st AtLongBreak = atLoopTest st 0"

text \<open>The first \<open>k\<close> pairs (phase, next phase) a generator produces from a given place.\<close>

fun generated :: "Settings \<Rightarrow> nat \<Rightarrow> Generator \<Rightarrow> (Phase \<times> Phase) list" where
  "generated st 0 g = []"
| "generated st (Suc k) g =
     (yPhase (createTimers st g), yNext (createTimers st g)) # generated st k (yGen (createTimers st g))"

datatype SeqEvent =
    TimerEv "Phase option" "Phase option" TimerEvent
  | CycleReset Phase

text \<open>
  The fields of a \<^verbatim>\<open>PomodoroTimer\<close>; one that no statement has assigned yet is
  \<open>None\<close>. \<open>hasObserver\<close> is its own listener registry: \<^verbatim>\<open>observe\<close> of the
  wrapper registers handlers for all eight of its events.
\<close>

record PomodoroTimer =
  settings :: Settings
  timer :: "Timer option"
  phase :: "Phase option"
  nextPhase :: "Phase option"
  timerGenerator :: "Generator option"
  startOfCycle :: bool
  hasObserver :: bool

datatype Error = InvalidConfiguration | TypeError

datatype Outcome = Returned | Thrown Error

text \<open>
  The handlers \<^verbatim>\<open>onStart\<close> ... \<^verbatim>\<open>onChange\<close>: each event of a timer that has
  them registered is emitted again, under its \<^verbatim>\<open>timer:\<close> name, with the phase fields
  as they are at that moment.
\<close>

definition relay :: "PomodoroTimer \<Rightarrow> Timer \<Rightarrow> TimerEvent list \<Rightarrow> SeqEvent list" where
  "relay p t evs = (if hasListeners t then map (TimerEv (phase p) (nextPhase p)) evs else [])"

text \<open>The closure \<^verbatim>\<open>setTimer\<close> of \<^verbatim>\<open>createTimers\<close>.\<close>

fun setTimer :: "Timer \<Rightarrow> PomodoroTimer \<times> Scheduler
    \<Rightarrow> (PomodoroTimer \<times> Scheduler) \<times> SeqEvent list" where
  "setTimer new (p, s) =
     (case timer p of
        None \<Rightarrow> ((p\<lparr> timer := Some (new\<lparr> hasListeners := True \<rparr>) \<rparr>, s), [])
      | Some old \<Rightarrow>
          let ((old', s'), evs) = Timer_stop (old, s)
          in ((p\<lparr> timer := Some (new\<lparr> hasListeners := True \<rparr>) \<rparr>, s'), relay p old evs))"

text \<open>
  Rounding to the nearest binary64 number, ties to the even significand: for \<open>x \<noteq> 0\<close>
  the unit in the last place is \<open>2 ^ e\<close> with \<open>e = \<lfloor>log\<^sub>2 |x|\<rfloor> - 52\<close>, and \<open>e\<close> not
  below \<open>-1074\<close> (the subnormal numbers). Numbers are taken to be finite: a magnitude
  of \<open>2 ^ 1024\<close> or more, which the script would turn into an infinity, is outside the
  model.
\<close>

fun bitLength :: "nat \<Rightarrow> nat" where
  "bitLength n = (if n = 0 then 0 else Suc (bitLength (n div 2)))"

declare bitLength.simps [simp del]

definition pow2 :: "int \<Rightarrow> rat" where
  "pow2 k = (if 0 \<le> k then 2 ^ nat k else 1 / 2 ^ nat (- k))"

text \<open>\<open>\<lfloor>log\<^sub>2 x\<rfloor>\<close> for \<open>x > 0\<close>, from the bit length of \<open>\<lfloor>x\<rfloor>\<close> or of \<open>\<lceil>1 / x\<rceil> - 1\<close>.\<close>

definition floorLog2 :: "rat \<Rightarrow> int" where
  "floorLog2 x =
     (if 1 \<le> x then int (bitLength (nat \<lfloor>x\<rfloor>)) - 1
      else - int (bitLength (nat (\<lceil>1 / x\<rceil> - 1))))"

definition roundHalfEven :: "rat \<Rightarrow> int" where
  "roundHalfEven y =
     (let f = \<lfloor>y\<rfloor>; d = y - of_int f
      in if d < 1 / 2 then f else if 1 / 2 < d then f + 1 else if even f then f else f + 1)"

definition binary64 :: "rat \<Rightarrow> rat" where
  "binary64 x =
     (if x = 0 then 0
      else
        let e = max (floorLog2 \<bar>x\<bar> - 52) (- 1074)
        in sgn x * of_int (roundHalfEven (\<bar>x\<bar> / pow2 e)) * pow2 e)"

text \<open>
  \<^verbatim>\<open>Math.floor(minutes * 60)\<close>. The configured minutes are a binary64 number (a
  rational that is not one stands for the nearest one, as a decimal in the settings
  does), and the product is rounded to binary64 before the floor is taken.
\<close>

definition secondsOf :: "rat \<Rightarrow> rat" where
  "secondsOf minutes = of_int \<lfloor>binary64 (binary64 minutes * 60)\<rfloor>"

text \<open>\<^verbatim>\<open>this.timerGenerator.next()\<close> on a generator suspended at \<open>g\<close>.\<close>

fun generatorNext :: "Generator \<Rightarrow> PomodoroTimer \<times> Scheduler
    \<Rightarrow> (PomodoroTimer \<times> Scheduler) \<times> SeqEvent list" where
  "generatorNext g (p, s) =
     (let y = createTimers (settings p) g;
          p1 = p\<lparr> phase := Some (yPhase y), nextPhase := Some (yNext y) \<rparr>;
          ((p2, s2), evs) = setTimer (Timer_new (secondsOf (yMinutes y)) 60) (p1, s)
      in ((p2\<lparr> timerGenerator := Some (yGen y) \<rparr>, s2), evs))"

definition hasLongBreak :: "PomodoroTimer \<Rightarrow> bool" where
  "hasLongBreak p = (case longBreak_interval (settings p) of None \<Rightarrow> False | Some n \<Rightarrow> 0 < n)"

text \<open>
  The loop \<^verbatim>\<open>while (this.phase != newPhase) this.timerGenerator.next()\<close> of the
  phase setter. It has no bound of its own, so it is a partial function: \<open>None\<close> is a
  loop that never ends. The events of the passes are collected in \<open>acc\<close>. (The
  setter assigns \<^verbatim>\<open>timerGenerator\<close> just before the loop and every pass assigns it
  again, so the loop never finds the field empty.)
\<close>

partial_function (option) fastForward ::
  "Phase \<Rightarrow> PomodoroTimer \<times> Scheduler \<Rightarrow> SeqEvent list
     \<Rightarrow> ((PomodoroTimer \<times> Scheduler) \<times> SeqEvent list) option" where
  "fastForward newPhase w acc =
     (if phase (fst w) = Some newPhase then Some (w, acc)
      else case timerGenerator (fst w) of
             None \<Rightarrow> None
           | Some g \<Rightarrow> fastForward newPhase (fst (generatorNext g w))
                        (acc @ snd (generatorNext g w)))"

declare fastForward.simps [code]

text \<open>
  The setter \<^verbatim>\<open>set phase(newPhase)\<close>. The result is \<open>None\<close> when the call never
  returns; otherwise how it ended, the state it left and the events it emitted.
\<close>

definition setPhase :: "Phase \<Rightarrow> PomodoroTimer \<times> Scheduler
    \<Rightarrow> (Outcome \<times> (PomodoroTimer \<times> Scheduler) \<times> SeqEvent list) option" where
  "setPhase newPhase w =
     (if \<not> hasLongBreak (fst w) \<and> newPhase = LongBreak
      then Some (Thrown InvalidConfiguration, w, [])
      else
        case fastForward newPhase
               ((fst w)\<lparr> timerGenerator := Some AtEntry, phase := None \<rparr>, snd w) [] of
          None \<Rightarrow> None
        | Some ((p, s), evs) \<Rightarrow>
            Some (Returned, (p\<lparr> startOfCycle := True \<rparr>, s), evs @ [CycleReset newPhase]))"

text \<open>
  \<^verbatim>\<open>new PomodoroTimer(settings, initialPhase)\<close>: when the setter runs, the fresh
  object (\<open>blank\<close>) has no field but \<^verbatim>\<open>settings\<close> and no listener. When the
  setter throws, so does the constructor, and no object comes into being.
\<close>

definition blank :: "Settings \<Rightarrow> PomodoroTimer" where
  "blank st =
     \<lparr> settings = st, timer = None, phase = None, nextPhase = None,
       timerGenerator = None, startOfCycle = False, hasObserver = False \<rparr>"

definition PomodoroTimer_new :: "Settings \<Rightarrow> Phase \<Rightarrow> Scheduler
    \<Rightarrow> (Outcome \<times> (PomodoroTimer \<times> Scheduler) \<times> SeqEvent list) option" where
  "PomodoroTimer_new st initialPhase s = setPhase initialPhase (blank st, s)"

text \<open>
  A method call on \<^verbatim>\<open>this.timer\<close>; on a missing timer the call is a type error of
  the language.
\<close>

fun onTimer :: "(Timer \<times> Scheduler \<Rightarrow> (Timer \<times> Scheduler) \<times> TimerEvent list)
    \<Rightarrow> PomodoroTimer \<times> Scheduler \<Rightarrow> Outcome \<times> (PomodoroTimer \<times> Scheduler) \<times> SeqEvent list" where
  "onTimer f (p, s) =
     (case timer p of
        None \<Rightarrow> (Thrown TypeError, (p, s), [])
      | Some t \<Rightarrow>
          let ((t', s'), evs) = f (t, s)
          in (Returned, (p\<lparr> timer := Some t' \<rparr>, s'), relay p t evs))"

fun dispose :: "PomodoroTimer \<times> Scheduler
    \<Rightarrow> Outcome \<times> (PomodoroTimer \<times> Scheduler) \<times> SeqEvent list" where
  "dispose (p, s) =
     (case timer p of
        None \<Rightarrow> (Thrown TypeError, (p, s), [])
      | Some t \<Rightarrow>
          let ((t', s'), evs) = Timer_stop (t, s)
          in (Returned, (p\<lparr> timer := Some (t'\<lparr> hasListeners := False \<rparr>) \<rparr>, s'), relay p t evs))"

fun PomodoroTimer_start :: "int \<Rightarrow> PomodoroTimer \<times> Scheduler
    \<Rightarrow> Outcome \<times> (PomodoroTimer \<times> Scheduler) \<times> SeqEvent list" where
  "PomodoroTimer_start now (p, s) =
     (if startOfCycle p then onTimer (Timer_start now) (p\<lparr> startOfCycle := False \<rparr>, s)
      else
        case timerGenerator p of
          None \<Rightarrow> (Thrown TypeError, (p, s), [])
        | Some g \<Rightarrow>
            let (w1, evs1) = generatorNext g (p, s);
                (out, w2, evs2) = onTimer (Timer_start now) w1
            in (out, w2, evs1 @ evs2))"

definition PomodoroTimer_pause :: "int \<Rightarrow> PomodoroTimer \<times> Scheduler
    \<Rightarrow> Outcome \<times> (PomodoroTimer \<times> Scheduler) \<times> SeqEvent list" where
  "PomodoroTimer_pause now = onTimer (Timer_pause now)"

definition PomodoroTimer_stop :: "PomodoroTimer \<times> Scheduler
    \<Rightarrow> Outcome \<times> (PomodoroTimer \<times> Scheduler) \<times> SeqEvent list" where
  "PomodoroTimer_stop = onTimer Timer_stop"

definition PomodoroTimer_resume :: "int \<Rightarrow> PomodoroTimer \<times> Scheduler
    \<Rightarrow> Outcome \<times> (PomodoroTimer \<times> Scheduler) \<times> SeqEvent list" where
  "PomodoroTimer_resume now = onTimer (Timer_resume now)"

definition PomodoroTimer_reset :: "int \<Rightarrow> PomodoroTimer \<times> Scheduler
    \<Rightarrow> Outcome \<times> (PomodoroTimer \<times> Scheduler) \<times> SeqEvent list" where
  "PomodoroTimer_reset now = onTimer (Timer_reset now)"

text \<open>The shape shared by the four \<^verbatim>\<open>start...\<close> methods: assign the phase, then start.\<close>

definition startAt :: "Phase \<Rightarrow> int \<Rightarrow> PomodoroTimer \<times> Scheduler
    \<Rightarrow> (Outcome \<times> (PomodoroTimer \<times> Scheduler) \<times> SeqEvent list) option" where
  "startAt ph now w =
     (case setPhase ph w of
        None \<Rightarrow> None
      | Some (Thrown e, w1, evs1) \<Rightarrow> Some (Thrown e, w1, evs1)
      | Some (Returned, w1, evs1) \<Rightarrow>
          let (out, w2, evs2) = PomodoroTimer_start now w1 in Some (out, w2, evs1 @ evs2))"

definition startCycle :: "int \<Rightarrow> PomodoroTimer \<times> Scheduler
    \<Rightarrow> (Outcome \<times> (PomodoroTimer \<times> Scheduler) \<times> SeqEvent list) option" where
  "startCycle = startAt Focus"

definition startFocus :: "int \<Rightarrow> PomodoroTimer \<times> Scheduler
    \<Rightarrow> (Outcome \<times> (PomodoroTimer \<times> Scheduler) \<times> SeqEvent list) option" where
  "startFocus = startCycle"

definition startShortBreak :: "int \<Rightarrow> PomodoroTimer \<times> Scheduler
    \<Rightarrow> (Outcome \<times> (PomodoroTimer \<times> Scheduler) \<times> SeqEvent list) option" where
  "startShortBreak = startAt ShortBreak"

definition startLongBreak :: "int \<Rightarrow> PomodoroTimer \<times> Scheduler
    \<Rightarrow> (Outcome \<times> (PomodoroTimer \<times> Scheduler) \<times> SeqEvent list) option" where
  "startLongBreak = startAt LongBreak"

text \<open>
  A scheduled callback of the timer the sequencer holds fires. (A timer the sequencer
  has replaced was stopped by \<^verbatim>\<open>setTimer\<close> first and lost its listeners.)
\<close>

fun PomodoroTimer_fireTick :: "nat \<Rightarrow> int \<Rightarrow> PomodoroTimer \<times> Scheduler
    \<Rightarrow> Outcome \<times> (PomodoroTimer \<times> Scheduler) \<times> SeqEvent list" where
  "PomodoroTimer_fireTick h now (p, s) =
     (case timer p of
        None \<Rightarrow> (Returned, (p, s), [])
      | Some t \<Rightarrow>
          if tickInterval t = Some h then onTimer (fireTick h now) (p, s)
          else (Returned, (p, s), []))"

fun PomodoroTimer_fireExpire :: "nat \<Rightarrow> PomodoroTimer \<times> Scheduler
    \<Rightarrow> Outcome \<times> (PomodoroTimer \<times> Scheduler) \<times> SeqEvent list" where
  "PomodoroTimer_fireExpire h (p, s) =
     (case timer p of
        None \<Rightarrow> (Returned, (p, s), [])
      | Some t \<Rightarrow>
          if expireTimeout t = Some h then onTimer (fireExpire h) (p, s)
          else (Returned, (p, s), []))"

text \<open>A driver for the sequencer: its methods and the two callbacks.\<close>

datatype SeqOp =
    SStart int
  | SStop
  | SPause int
  | SResume int
  | SReset int
  | SSetPhase Phase
  | SStartCycle int
  | SStartFocus int
  | SStartShortBreak int
  | SStartLongBreak int
  | STick nat int
  | SExpire nat

fun runSeqOp :: "SeqOp \<Rightarrow> PomodoroTimer \<times> Scheduler
    \<Rightarrow> (Outcome \<times> (PomodoroTimer \<times> Scheduler) \<times> SeqEvent list) option" where
  "runSeqOp (SStart now) w = Some (PomodoroTimer_start now w)"
| "runSeqOp SStop w = Some (PomodoroTimer_stop w)"
| "runSeqOp (SPause now) w = Some (PomodoroTimer_pause now w)"
| "runSeqOp (SResume now) w = Some (PomodoroTimer_resume now w)"
| "runSeqOp (SReset now) w = Some (PomodoroTimer_reset now w)"
| "runSeqOp (SSetPhase ph) w = setPhase ph w"
| "runSeqOp (SStartCycle now) w = startCycle now w"
| "runSeqOp (SStartFocus now) w = startFocus now w"
| "runSeqOp (SStartShortBreak now) w = startShortBreak now w"
| "runSeqOp (SStartLongBreak now) w = startLongBreak now w"
| "runSeqOp (STick h now) w = Some (PomodoroTimer_fireTick h now w)"
| "runSeqOp (SExpire h) w = Some (PomodoroTimer_fireExpire h w)"

text \<open>
  A run of calls. A call that throws leaves the state as it was at the throw and the run
  goes on with the next call; a call that never returns ends the run.
\<close>

fun runSeqOps :: "SeqOp list \<Rightarrow> PomodoroTimer \<times> Scheduler \<Rightarrow> SeqEvent list
    \<Rightarrow> ((PomodoroTimer \<times> Scheduler) \<times> SeqEvent list) option" where
  "runSeqOps [] w acc = Some (w, acc)"
| "runSeqOps (x # xs) w acc =
     (case runSeqOp x w of
        None \<Rightarrow> None
      | Some (out, w', evs) \<Rightarrow> runSeqOps xs w' (acc @ evs))"

text \<open>The calls that go straight to the held timer and leave the phase fields alone.\<close>

fun timerOnly :: "SeqOp \<Rightarrow> bool" where
  "timerOnly SStop = True"
| "timerOnly (SPause now) = True"
| "timerOnly (SResume now) = True"
| "timerOnly (SReset now) = True"
| "timerOnly (STick h now) = True"
| "timerOnly (SExpire h) = True"
| "timerOnly x = False"

fun taggedWith :: "Phase \<Rightarrow> SeqEvent \<Rightarrow> bool" where
  "taggedWith ph (TimerEv cur nxt e) = (cur = Some ph)"
| "taggedWith ph (CycleReset q) = False"

text \<open>The minutes the settings give for a phase.\<close>

fun minutesOf :: "Settings \<Rightarrow> Phase \<Rightarrow> rat" where
  "minutesOf st Focus = focus_duration st"
| "minutesOf st ShortBreak = shortBreak_duration st"
| "minutesOf st LongBreak = longBreak_duration st"


section \<open>The wrapper bound to the settings: class PersistentPomodoroTimer\<close>

text \<open>The wrapper's one field, \<^verbatim>\<open>timer\<close>, holds the current sequencer.\<close>

record PersistentPomodoroTimer =
  sequencer :: "PomodoroTimer option"

text \<open>
  The handlers \<^verbatim>\<open>onTimerStart\<close> ... \<^verbatim>\<open>onCycleReset\<close> emit what they receive,
  and they receive the events of a sequencer that has them registered.
\<close>

definition forward :: "PomodoroTimer \<Rightarrow> SeqEvent list \<Rightarrow> SeqEvent list" where
  "forward p evs = (if hasObserver p then evs else [])"

text \<open>
  \<^verbatim>\<open>onSettingsChange(settings)\<close>. The result lists the events the wrapper emitted
  during the call.
\<close>

fun onSettingsChange :: "Settings \<Rightarrow> PersistentPomodoroTimer \<times> Scheduler
    \<Rightarrow> (Outcome \<times> (PersistentPomodoroTimer \<times> Scheduler) \<times> SeqEvent list) option" where
  "onSettingsChange st (wr, s) =
     (let (out1, wr1, s1, evs1) =
            (case sequencer wr of
               None \<Rightarrow> (Returned, wr, s, [])
             | Some old \<Rightarrow>
                 let (out, (old', s'), evs) = dispose (old, s)
                 in (out, wr\<lparr> sequencer := Some old' \<rparr>, s', forward old evs))
      in case out1 of
           Thrown e \<Rightarrow> Some (Thrown e, (wr1, s1), evs1)
         | Returned \<Rightarrow>
             (case PomodoroTimer_new st Focus s1 of
                None \<Rightarrow> None
              | Some (Thrown e, (p, s2), evs2) \<Rightarrow> Some (Thrown e, (wr1, s2), evs1 @ forward p evs2)
              | Some (Returned, (p, s2), evs2) \<Rightarrow>
                  Some (Returned, (wr1\<lparr> sequencer := Some (p\<lparr> hasObserver := True \<rparr>) \<rparr>, s2),
                        evs1 @ forward p evs2)))"

text \<open>Every other method of the wrapper hands the call to the sequencer it holds.\<close>

fun Persistent_call :: "SeqOp \<Rightarrow> PersistentPomodoroTimer \<times> Scheduler
    \<Rightarrow> (Outcome \<times> (PersistentPomodoroTimer \<times> Scheduler) \<times> SeqEvent list) option" where
  "Persistent_call x (wr, s) =
     (case sequencer wr of
        None \<Rightarrow> Some (Thrown TypeError, (wr, s), [])
      | Some p \<Rightarrow>
          (case runSeqOp x (p, s) of
             None \<Rightarrow> None
           | Some (out, (p', s'), evs) \<Rightarrow>
               Some (out, (wr\<lparr> sequencer := Some p' \<rparr>, s'), forward p evs)))"

fun Persistent_calls :: "SeqOp list \<Rightarrow> PersistentPomodoroTimer \<times> Scheduler \<Rightarrow> SeqEvent list
    \<Rightarrow> ((PersistentPomodoroTimer \<times> Scheduler) \<times> SeqEvent list) option" where
  "Persistent_calls [] w acc = Some (w, acc)"
| "Persistent_calls (x # xs) w acc =
     (case Persistent_call x w of
        None \<Rightarrow> None
      | Some (out, w', evs) \<Rightarrow> Persistent_calls xs w' (acc @ evs))"


section \<open>Notions used in the statements and proofs\<close>

text \<open>The timer a resumption of the generator installs for a phase.\<close>

definition freshTimer :: "Settings \<Rightarrow> Phase \<Rightarrow> Timer" where
  "freshTimer st ph = (Timer_new (secondsOf (minutesOf st ph)) 60)\<lparr> hasListeners := True \<rparr>"

text \<open>
  A timer of \<open>d\<close> seconds that was started at clock reading \<open>now\<close> and not touched
  since: it is Running with all of \<open>d\<close> remaining, its expiry is pending \<open>d\<close> seconds
  ahead and its progress callback every 60 seconds, under the handles the timer holds.
\<close>

definition startedAt :: "int \<Rightarrow> rat \<Rightarrow> Timer \<Rightarrow> Scheduler \<Rightarrow> bool" where
  "startedAt now d t s =
     (state t = Running \<and> duration t = d \<and> tick t = 60 \<and> remaining t = Some d \<and>
      periodStartTime t = Some now \<and> hasListeners t \<and>
      (case expireTimeout t of None \<Rightarrow> False | Some h \<Rightarrow> (h, d * 1000) \<in> set (timeouts s)) \<and>
      (case tickInterval t of None \<Rightarrow> False | Some k \<Rightarrow> (k, 60 * 1000) \<in> set (intervals s)))"

text \<open>What the wrapper makes of a result of the sequencer it holds.\<close>

definition lift :: "PersistentPomodoroTimer \<Rightarrow> (PomodoroTimer \<times> Scheduler) \<times> SeqEvent list
    \<Rightarrow> (PersistentPomodoroTimer \<times> Scheduler) \<times> SeqEvent list" where
  "lift wr r = ((wr\<lparr> sequencer := Some (fst (fst r)) \<rparr>, snd (fst r)), snd r)"

text \<open>
  The states of the setter's loop under a negative interval: the generator only ever
  produces the long break.
\<close>

definition negativeLoop :: "PomodoroTimer \<Rightarrow> bool" where
  "negativeLoop p =
     ((case longBreak_interval (settings p) of None \<Rightarrow> False | Some n \<Rightarrow> n < 0) \<and>
      (phase p = None \<or> phase p = Some LongBreak) \<and>
      (timerGenerator p = Some AtEntry \<or> timerGenerator p = Some AtLongBreak))"

text \<open>
  Under an interval \<open>n > 0\<close>: the number of resumptions left until the generator
  produces the long break, and the places and phases the loop passes through.
\<close>

fun stepsToLongBreak :: "int \<Rightarrow> Generator \<Rightarrow> nat" where
  "stepsToLongBreak n AtEntry = nat (2 * n + 1)"
| "stepsToLongBreak n (AtFocus i) = nat (2 * (n - i))"
| "stepsToLongBreak n (AtShortBreak i) = nat (2 * (n - i) - 1)"
| "stepsToLongBreak n AtLongBreak = 0"

fun inStep :: "int \<Rightarrow> Generator \<Rightarrow> Phase option \<Rightarrow> bool" where
  "inStep n AtEntry ph = (ph = None)"
| "inStep n (AtFocus i) ph = (0 \<le> i \<and> i < n \<and> ph = Some Focus)"
| "inStep n (AtShortBreak i) ph = (0 \<le> i \<and> i < n \<and> ph = Some ShortBreak)"
| "inStep n AtLongBreak ph = (ph = Some LongBreak)"

text \<open>
  Concrete inputs: settings of 25, 5 and 15 minutes with a given interval, and the
  sequencer as the setter leaves it at ShortBreak under those settings with interval 4.
\<close>

definition sampleSettings :: "int option \<Rightarrow> Settings" where
  "sampleSettings iv =
     \<lparr> focus_duration = 25, shortBreak_duration = 5, longBreak_duration = 15,
       longBreak_interval = iv \<rparr>"

definition sampleAtShortBreak :: PomodoroTimer where
  "sampleAtShortBreak =
     \<lparr> settings = sampleSettings (Some 4),
       timer = Some \<lparr> state = Stopped, duration = 300, tick = 60, tickInterval = None,
                      expireTimeout = None, periodStartTime = None, remaining = None,
                      hasListeners = True \<rparr>,
       phase = Some ShortBreak, nextPhase = Some Focus,
       timerGenerator = Some (AtShortBreak 0), startOfCycle = True, hasObserver = False \<rparr>"

text \<open>
  Every sequencer the constructor returns holds a timer, and no call takes it away; a
  wrapper is well built when the sequencer it holds (if any) does.
\<close>

definition wellBuilt :: "PersistentPomodoroTimer \<Rightarrow> bool" where
  "wellBuilt wr = (case sequencer wr of None \<Rightarrow> True | Some p \<Rightarrow> timer p \<noteq> None)"

text \<open>A wrapper that holds that sequencer and is registered on it.\<close>

definition sampleWrapper :: PersistentPomodoroTimer where
  "sampleWrapper = \<lparr> sequencer = Some (sampleAtShortBreak\<lparr> hasObserver := True \<rparr>) \<rparr>"


section \<open>Properties of the countdown\<close>

lemma runOp_invariant:
  "timerInvariant (fst w) \<Longrightarrow> timerInvariant (fst (fst (runOp x w)))"
  by (cases w; cases x)
     (auto simp: timerInvariant_def setTimeout_def setInterval_def Let_def split: prod.splits)

lemma runOps_invariant:
  "timerInvariant (fst (fst r)) \<Longrightarrow> timerInvariant (fst (fst (runOps xs r)))"
proof (induction xs arbitrary: r)
  case Nil
  then show ?case by simp
next
  case (Cons x xs)
  obtain w acc where r: "r = (w, acc)" by (cases r)
  obtain w' evs where step: "runOp x w = (w', evs)" by (cases "runOp x w")
  have "timerInvariant (fst w')"
    using runOp_invariant [of w x] Cons.prems r step by simp
  then have "timerInvariant (fst (fst (runOps xs (w', acc @ evs))))"
    using Cons.IH [of "(w', acc @ evs)"] by simp
  then show ?case using r step by simp
qed

text \<open>
  C4. Start from a timer as its constructor leaves it, with any duration, tick period and
  scheduler, and make any sequence of calls to start, stop, pause, resume and reset,
  mixed with firings of the tick and expiry callbacks at any clock readings. In the
  state reached, \<open>remaining\<close> is null exactly when the state is Stopped and
  \<open>periodStartTime\<close> is non-null exactly when the state is Running. The sequence is
  arbitrary, so this holds after each step of it.
\<close>

theorem timer_invariant_always:
  "timerInvariant (fst (fst (runOps xs ((Timer_new d tk, s), []))))"
  by (rule runOps_invariant) (simp add: timerInvariant_def Timer_new_def)

text \<open>
  C8. A call outside its precondition does nothing: start on a timer that is not
  Stopped, stop on a Stopped one, pause on one that is not Running and resume on one
  that is not Paused each return the timer (all its fields) and the scheduler (the
  pending callbacks) as they were, and emit no event.
\<close>

theorem out_of_precondition_noop:
  "(state t \<noteq> Stopped \<longrightarrow> Timer_start now (t, s) = ((t, s), [])) \<and>
   (state t = Stopped \<longrightarrow> Timer_stop (t, s) = ((t, s), [])) \<and>
   (state t \<noteq> Running \<longrightarrow> Timer_pause now (t, s) = ((t, s), [])) \<and>
   (state t \<noteq> Paused \<longrightarrow> Timer_resume now (t, s) = ((t, s), []))"
  by simp

theorem out_of_precondition_noop_witness:
  "state (Timer_new 1500 60) = Stopped \<and>
   state (Timer_new 1500 60) \<noteq> Running \<and>
   state (Timer_new 1500 60) \<noteq> Paused \<and>
   Timer_stop (Timer_new 1500 60, emptyScheduler) = ((Timer_new 1500 60, emptyScheduler), []) \<and>
   Timer_pause 7 (Timer_new 1500 60, emptyScheduler) = ((Timer_new 1500 60, emptyScheduler), []) \<and>
   Timer_resume 7 (Timer_new 1500 60, emptyScheduler) = ((Timer_new 1500 60, emptyScheduler), []) \<and>
   state ((Timer_new 1500 60)\<lparr> state := Paused \<rparr>) \<noteq> Stopped \<and>
   Timer_start 7 ((Timer_new 1500 60)\<lparr> state := Paused \<rparr>, emptyScheduler)
     = (((Timer_new 1500 60)\<lparr> state := Paused \<rparr>, emptyScheduler), [])"
  using out_of_precondition_noop [of "Timer_new 1500 60" 7 emptyScheduler]
        out_of_precondition_noop [of "(Timer_new 1500 60)\<lparr> state := Paused \<rparr>" 7 emptyScheduler]
  by (simp add: Timer_new_def)

text \<open>
  C9. A firing of the periodic progress callback returns the timer and the scheduler
  exactly as they were: no field changes and the callback stays scheduled. When it
  fires on a timer whose \<open>remaining\<close> is \<open>r\<close> and whose \<open>periodStartTime\<close> is
  \<open>p\<close>, all it does is emit one tick carrying \<open>remaining' = r - periodLength\<close> and
  \<open>elapsed = duration - remaining'\<close>, where \<open>periodLength\<close> is \<open>now - p\<close>, the
  difference of the two readings of the millisecond clock, expressed in seconds.
\<close>

theorem tick_callback_frame:
  "fst (fireTick h now (t, s)) = (t, s) \<and>
   (h \<in> fst ` set (intervals s) \<and> remaining t = Some r \<and> periodStartTime t = Some p \<longrightarrow>
      snd (fireTick h now (t, s)) =
        [EvTick (duration t - (r - periodLength now t)) (r - periodLength now t)] \<and>
      periodLength now t = of_int (now - p) / 1000)"
  by (simp add: Let_def numOf_def msOf_def periodLength_def)

theorem tick_callback_frame_witness:
  "fst ` set (intervals (snd (fst (Timer_start 0 (Timer_new 1500 60, emptyScheduler))))) = {1} \<and>
   remaining (fst (fst (Timer_start 0 (Timer_new 1500 60, emptyScheduler)))) = Some 1500 \<and>
   periodStartTime (fst (fst (Timer_start 0 (Timer_new 1500 60, emptyScheduler)))) = Some 0 \<and>
   fireTick 1 60000 (fst (Timer_start 0 (Timer_new 1500 60, emptyScheduler)))
     = (fst (Timer_start 0 (Timer_new 1500 60, emptyScheduler)), [EvTick 60 1440])"
  using tick_callback_frame [of 1 60000
      "fst (fst (Timer_start 0 (Timer_new 1500 60, emptyScheduler)))"
      "snd (fst (Timer_start 0 (Timer_new 1500 60, emptyScheduler)))" 1500 0]
  by (simp add: Timer_new_def emptyScheduler_def setTimeout_def setInterval_def Let_def
        numOf_def msOf_def periodLength_def)

lemma changeFollows_append:
  "changeFollows P xs \<Longrightarrow> changeFollows P ys \<Longrightarrow> changeFollows P (xs @ ys)"
  by (induction xs) (auto split: list.splits)

lemma runOp_changeFollows: "changeFollows notifiesState (snd (runOp x w))"
  by (cases w; cases x)
     (auto simp: notifiesState_def Let_def split: prod.splits)

lemma runOps_changeFollows:
  "changeFollows notifiesState (snd r) \<Longrightarrow> changeFollows notifiesState (snd (runOps xs r))"
proof (induction xs arbitrary: r)
  case Nil
  then show ?case by simp
next
  case (Cons x xs)
  obtain w acc where r: "r = (w, acc)" by (cases r)
  obtain w' evs where step: "runOp x w = (w', evs)" by (cases "runOp x w")
  have "changeFollows notifiesState evs"
    using runOp_changeFollows [of x w] step by simp
  then have "changeFollows notifiesState (acc @ evs)"
    using Cons.prems r by (simp add: changeFollows_append)
  then have "changeFollows notifiesState (snd (runOps xs (w', acc @ evs)))"
    using Cons.IH [of "(w', acc @ evs)"] by simp
  then show ?case using r step by simp
qed

text \<open>
  C2, as stated, fails: a timer of 1500 seconds with a tick period of 60 seconds is
  started at clock reading 0 and its progress callback (handle 1) fires at 60000. The
  trace is start, change, tick, and nothing follows the tick.
\<close>

theorem tick_without_change:
  "\<not> changeFollows notifies
       (snd (runOps [OpStart 0, OpTick 1 60000] ((Timer_new 1500 60, emptyScheduler), [])))"
  by (simp add: Timer_new_def emptyScheduler_def setTimeout_def setInterval_def Let_def
        notifies_def)

text \<open>
  C2, amended. In the trace of any sequence of calls and callback firings on a timer,
  every start, stop, pause, resume and expire notification is followed at once by a
  change notification. (The tick notification is emitted alone.)
\<close>

theorem change_follows_transitions:
  "changeFollows notifiesState (snd (runOps xs ((Timer_new d tk, s), [])))"
  by (rule runOps_changeFollows) simp

theorem change_follows_transitions_witness:
  "snd (runOps [OpStart 0, OpTick 1 60000, OpPause 90000, OpResume 100000, OpExpire 2]
          ((Timer_new 1500 60, emptyScheduler), []))
     = [EvStart 0 1500, EvChange, EvTick 60 1440, EvPause 90 1410, EvChange,
        EvResume 90 1410, EvChange, EvExpire 1500 0, EvChange] \<and>
   changeFollows notifiesState
     [EvStart 0 1500, EvChange, EvTick 60 1440, EvPause 90 1410, EvChange,
      EvResume 90 1410, EvChange, EvExpire 1500 0, EvChange]"
proof -
  have run: "snd (runOps [OpStart 0, OpTick 1 60000, OpPause 90000, OpResume 100000, OpExpire 2]
          ((Timer_new 1500 60, emptyScheduler), []))
     = [EvStart 0 1500, EvChange, EvTick 60 1440, EvPause 90 1410, EvChange,
        EvResume 90 1410, EvChange, EvExpire 1500 0, EvChange]"
    by (simp add: Timer_new_def emptyScheduler_def setTimeout_def setInterval_def Let_def
          numOf_def msOf_def periodLength_def clearTimeout_def clearInterval_def)
  show ?thesis
    using change_follows_transitions
      [of "[OpStart 0, OpTick 1 60000, OpPause 90000, OpResume 100000, OpExpire 2]"
          1500 60 emptyScheduler]
    unfolding run by (simp add: run)
qed

text \<open>In every run the tick is emitted alone: no change notification follows it.\<close>

lemma noChangeAfterTick_append:
  "noChangeAfterTick xs \<Longrightarrow> noChangeAfterTick ys \<Longrightarrow>
   (case ys of [] \<Rightarrow> True | y # _ \<Rightarrow> y \<noteq> EvChange) \<Longrightarrow> noChangeAfterTick (xs @ ys)"
  by (induction xs rule: noChangeAfterTick.induct) (auto split: list.splits TimerEvent.splits)

lemma runOp_noChangeAfterTick:
  "noChangeAfterTick (snd (runOp x w)) \<and>
   (case snd (runOp x w) of [] \<Rightarrow> True | y # _ \<Rightarrow> y \<noteq> EvChange)"
  by (cases w; cases x) (auto simp: Let_def split: prod.splits)

lemma runOps_noChangeAfterTick:
  "noChangeAfterTick (snd r) \<Longrightarrow> noChangeAfterTick (snd (runOps xs r))"
proof (induction xs arbitrary: r)
  case Nil
  then show ?case by simp
next
  case (Cons x xs)
  obtain w acc where r: "r = (w, acc)" by (cases r)
  obtain w' evs where step: "runOp x w = (w', evs)" by (cases "runOp x w")
  have "noChangeAfterTick (acc @ evs)"
    using runOp_noChangeAfterTick [of x w] step Cons.prems r
    by (intro noChangeAfterTick_append) simp_all
  then have "noChangeAfterTick (snd (runOps xs (w', acc @ evs)))"
    using Cons.IH [of "(w', acc @ evs)"] by simp
  then show ?case using r step by simp
qed

lemma tick_is_alone:
  "noChangeAfterTick (snd (runOps xs ((Timer_new d tk, s), [])))"
  by (rule runOps_noChangeAfterTick) simp


section \<open>Properties of the generator\<close>

lemma five_steps:
  "g = AtEntry \<or> g = AtLongBreak \<Longrightarrow>
   generated (st\<lparr> longBreak_interval := Some 2 \<rparr>) (Suc (Suc (Suc (Suc (Suc k))))) g =
     [(Focus, ShortBreak), (ShortBreak, Focus), (Focus, ShortBreak), (ShortBreak, LongBreak),
      (LongBreak, Focus)] @ generated (st\<lparr> longBreak_interval := Some 2 \<rparr>) k AtLongBreak"
  by (auto simp: atLoopTest_def loopTest_def truthy_def)

lemma cycles_from:
  "g = AtEntry \<or> g = AtLongBreak \<Longrightarrow>
   generated (st\<lparr> longBreak_interval := Some 2 \<rparr>) (5 * m) g =
     concat (replicate m [(Focus, ShortBreak), (ShortBreak, Focus), (Focus, ShortBreak),
       (ShortBreak, LongBreak), (LongBreak, Focus)])"
proof (induction m arbitrary: g)
  case 0
  then show ?case by simp
next
  case (Suc m)
  have "5 * Suc m = Suc (Suc (Suc (Suc (Suc (5 * m)))))" by simp
  then have "generated (st\<lparr> longBreak_interval := Some 2 \<rparr>) (5 * Suc m) g =
      generated (st\<lparr> longBreak_interval := Some 2 \<rparr>) (Suc (Suc (Suc (Suc (Suc (5 * m)))))) g"
    by (simp only:)
  also have "\<dots> = [(Focus, ShortBreak), (ShortBreak, Focus), (Focus, ShortBreak),
      (ShortBreak, LongBreak), (LongBreak, Focus)] @
      generated (st\<lparr> longBreak_interval := Some 2 \<rparr>) (5 * m) AtLongBreak"
    by (rule five_steps [OF Suc.prems])
  also have "generated (st\<lparr> longBreak_interval := Some 2 \<rparr>) (5 * m) AtLongBreak =
      concat (replicate m [(Focus, ShortBreak), (ShortBreak, Focus), (Focus, ShortBreak),
       (ShortBreak, LongBreak), (LongBreak, Focus)])"
    by (rule Suc.IH) simp
  finally show ?case by simp
qed

text \<open>
  C6. With \<^verbatim>\<open>longBreak.interval = 2\<close> (and any durations) the generator, resumed
  from its entry, produces the block Focus, ShortBreak, Focus, ShortBreak, LongBreak over
  and over: for every \<open>m\<close>, its first \<open>5 m\<close> pairs (phase, next phase) are \<open>m\<close>
  copies of that block, where each Focus is followed by the next phase ShortBreak, the
  first ShortBreak by Focus, the ShortBreak before the long break by LongBreak, and the
  LongBreak by Focus.
\<close>

theorem interval_two_cycle:
  "generated (st\<lparr> longBreak_interval := Some 2 \<rparr>) (5 * m) AtEntry =
     concat (replicate m [(Focus, ShortBreak), (ShortBreak, Focus), (Focus, ShortBreak),
       (ShortBreak, LongBreak), (LongBreak, Focus)])"
  by (rule cycles_from) simp

lemma two_steps_alternate:
  "\<not> truthy (longBreak_interval st) \<Longrightarrow> g = AtEntry \<or> g = AtShortBreak 0 \<Longrightarrow>
   generated st (Suc (Suc k)) g =
     [(Focus, ShortBreak), (ShortBreak, Focus)] @ generated st k (AtShortBreak 0)"
  by (auto simp: atLoopTest_def loopTest_def)

lemma alternation_from:
  "\<not> truthy (longBreak_interval st) \<Longrightarrow> g = AtEntry \<or> g = AtShortBreak 0 \<Longrightarrow>
   generated st (2 * m) g = concat (replicate m [(Focus, ShortBreak), (ShortBreak, Focus)])"
proof (induction m arbitrary: g)
  case 0
  then show ?case by simp
next
  case (Suc m)
  have "2 * Suc m = Suc (Suc (2 * m))" by simp
  then have "generated st (2 * Suc m) g = generated st (Suc (Suc (2 * m))) g"
    by (simp only:)
  also have "\<dots> = [(Focus, ShortBreak), (ShortBreak, Focus)] @
      generated st (2 * m) (AtShortBreak 0)"
    by (rule two_steps_alternate [OF Suc.prems])
  also have "generated st (2 * m) (AtShortBreak 0) =
      concat (replicate m [(Focus, ShortBreak), (ShortBreak, Focus)])"
    by (rule Suc.IH [OF Suc.prems(1)]) simp
  finally show ?case by simp
qed

lemma alternation_without_interval:
  "longBreak_interval st = None \<or> longBreak_interval st = Some 0 \<Longrightarrow>
   generated st (2 * m) AtEntry = concat (replicate m [(Focus, ShortBreak), (ShortBreak, Focus)])"
  by (rule alternation_from) (auto simp: truthy_def)

lemma negative_interval_only_long_breaks:
  "longBreak_interval st = Some n \<Longrightarrow> n < 0 \<Longrightarrow> g = AtEntry \<or> g = AtLongBreak \<Longrightarrow>
   generated st k g = replicate k (LongBreak, Focus)"
proof (induction k arbitrary: g)
  case 0
  then show ?case by simp
next
  case (Suc k)
  have "createTimers st g =
      \<lparr> yPhase = LongBreak, yNext = Focus, yMinutes = longBreak_duration st, yGen = AtLongBreak \<rparr>"
    using Suc.prems by (auto simp: atLoopTest_def loopTest_def truthy_def)
  then show ?case using Suc.IH [of AtLongBreak] Suc.prems(1,2) by simp
qed

text \<open>
  C1 says that every interval that is absent or not greater than 0 gives the alternation
  Focus, ShortBreak with no LongBreak. For an absent interval and for 0 that is
  \<open>alternation_without_interval\<close>. With the interval \<open>-1\<close>, as with every
  negative one (\<open>negative_interval_only_long_breaks\<close>), the code does otherwise: the
  loop test fails at once and every resumption produces LongBreak.
\<close>

theorem negative_interval_generates_long_breaks:
  "generated (st\<lparr> longBreak_interval := Some (- 1) \<rparr>) 4 AtEntry =
     [(LongBreak, Focus), (LongBreak, Focus), (LongBreak, Focus), (LongBreak, Focus)]"
  by (simp add: numeral_eq_Suc atLoopTest_def loopTest_def truthy_def)


section \<open>Properties of the phase setter\<close>

lemma createTimers_minutes: "yMinutes (createTimers st g) = minutesOf st (yPhase (createTimers st g))"
  by (cases g) (simp_all add: atLoopTest_def)

lemma generatorNext_fields:
  "settings (fst (fst (generatorNext g (p, s)))) = settings p"
  "phase (fst (fst (generatorNext g (p, s)))) = Some (yPhase (createTimers (settings p) g))"
  "nextPhase (fst (fst (generatorNext g (p, s)))) = Some (yNext (createTimers (settings p) g))"
  "timerGenerator (fst (fst (generatorNext g (p, s)))) = Some (yGen (createTimers (settings p) g))"
  "timer (fst (fst (generatorNext g (p, s)))) =
     Some (freshTimer (settings p) (yPhase (createTimers (settings p) g)))"
  "startOfCycle (fst (fst (generatorNext g (p, s)))) = startOfCycle p"
  "hasObserver (fst (fst (generatorNext g (p, s)))) = hasObserver p"
  by (simp_all add: Let_def freshTimer_def createTimers_minutes split: option.splits prod.splits)

lemma fastForward_done:
  "phase (fst w) = Some ph \<Longrightarrow> fastForward ph w acc = Some (w, acc)"
  by (subst fastForward.simps) simp

lemma fastForward_step:
  "phase (fst w) \<noteq> Some ph \<Longrightarrow> timerGenerator (fst w) = Some g \<Longrightarrow>
   fastForward ph w acc =
     fastForward ph (fst (generatorNext g w)) (acc @ snd (generatorNext g w))"
  by (subst fastForward.simps) simp

lemma negativeLoop_step:
  assumes "negativeLoop p" "timerGenerator p = Some g"
  shows "negativeLoop (fst (fst (generatorNext g (p, s))))"
proof -
  obtain n where n: "longBreak_interval (settings p) = Some n" "n < 0"
    using assms(1) by (auto simp: negativeLoop_def split: option.splits)
  have g: "g = AtEntry \<or> g = AtLongBreak"
    using assms by (auto simp: negativeLoop_def)
  have r: "yPhase (createTimers (settings p) g) = LongBreak" "yGen (createTimers (settings p) g) = AtLongBreak"
    using g n by (auto simp: atLoopTest_def loopTest_def truthy_def)
  show ?thesis
    unfolding negativeLoop_def generatorNext_fields using n r by simp
qed

lemma fastForward_negative:
  assumes ret: "fastForward ph0 w0 acc0 = Some y0"
  shows "\<not> (ph0 \<noteq> LongBreak \<and> negativeLoop (fst w0))"
proof (rule fastForward.raw_induct
    [where P = "\<lambda>ph w acc y. \<not> (ph \<noteq> LongBreak \<and> negativeLoop (fst w))", OF _ ret])
  fix ff :: "Phase \<Rightarrow> PomodoroTimer \<times> Scheduler \<Rightarrow> SeqEvent list
      \<Rightarrow> ((PomodoroTimer \<times> Scheduler) \<times> SeqEvent list) option"
  fix ph w acc y
  assume IH: "\<And>ph w acc y. ff ph w acc = Some y \<Longrightarrow> \<not> (ph \<noteq> LongBreak \<and> negativeLoop (fst w))"
  assume body: "(if phase (fst w) = Some ph then Some (w, acc)
        else case timerGenerator (fst w) of None \<Rightarrow> None
             | Some g \<Rightarrow> ff ph (fst (generatorNext g w)) (acc @ snd (generatorNext g w))) = Some y"
  show "\<not> (ph \<noteq> LongBreak \<and> negativeLoop (fst w))"
  proof
    assume a: "ph \<noteq> LongBreak \<and> negativeLoop (fst w)"
    then have ph: "phase (fst w) \<noteq> Some ph" by (auto simp: negativeLoop_def)
    obtain g where g: "timerGenerator (fst w) = Some g"
      using a by (auto simp: negativeLoop_def)
    have "ff ph (fst (generatorNext g w)) (acc @ snd (generatorNext g w)) = Some y"
      using body ph g by simp
    then have "\<not> (ph \<noteq> LongBreak \<and> negativeLoop (fst (fst (generatorNext g w))))"
      by (rule IH)
    moreover have "negativeLoop (fst (fst (generatorNext g w)))"
      using negativeLoop_step [of "fst w" g "snd w"] a g by simp
    ultimately show False using a by simp
  qed
qed

lemma setPhase_negative_diverges:
  assumes "longBreak_interval (settings p) = Some n" "n < 0" "ph \<noteq> LongBreak"
  shows "setPhase ph (p, s) = None"
proof -
  let ?w = "(p\<lparr> timerGenerator := Some AtEntry, phase := None \<rparr>, s)"
  have "negativeLoop (fst ?w)" using assms by (simp add: negativeLoop_def)
  then have "fastForward ph ?w [] = None"
    using fastForward_negative [of ph ?w "[]"] assms(3) by (cases "fastForward ph ?w []") auto
  then show ?thesis using assms(3) by (simp add: setPhase_def)
qed

text \<open>
  C10 says that, unless it throws, the constructor fast-forwards the generator to the
  initial phase, sets the start-of-cycle flag and emits \<^verbatim>\<open>cycle:reset\<close>. With the
  interval \<open>-1\<close> and the initial phase Focus the code does none of that: the setter's
  loop never ends, so the constructor does not return. (With an absent or non-negative
  interval it does all of it: \<open>constructor_otherwise\<close>.)
\<close>

theorem constructor_never_returns:
  "PomodoroTimer_new (st\<lparr> longBreak_interval := Some (- 1) \<rparr>) Focus s = None"
  unfolding PomodoroTimer_new_def
  by (rule setPhase_negative_diverges [of _ "- 1"]) (simp_all add: blank_def)

lemma inStep_createTimers:
  assumes "0 < n" "longBreak_interval st = Some n" "inStep n g ph" "g \<noteq> AtLongBreak"
  shows "inStep n (yGen (createTimers st g)) (Some (yPhase (createTimers st g))) \<and>
         stepsToLongBreak n (yGen (createTimers st g)) < stepsToLongBreak n g"
  using assms by (cases g) (auto simp: atLoopTest_def loopTest_def truthy_def)

lemma fastForward_LongBreak_returns:
  assumes "0 < n" "longBreak_interval (settings (fst w)) = Some n"
    and "timerGenerator (fst w) = Some g" "inStep n g (phase (fst w))"
    and "stepsToLongBreak n g = k"
  shows "\<exists>r. fastForward LongBreak w acc = Some r"
  using assms
proof (induction k arbitrary: w acc g rule: less_induct)
  case (less k)
  show ?case
  proof (cases "g = AtLongBreak")
    case True
    then have "phase (fst w) = Some LongBreak" using less.prems(4) by simp
    then show ?thesis by (simp add: fastForward_done)
  next
    case False
    then have ph: "phase (fst w) \<noteq> Some LongBreak"
      using less.prems(4) by (cases g) auto
    let ?w1 = "fst (generatorNext g w)"
    let ?g1 = "yGen (createTimers (settings (fst w)) g)"
    have fields: "settings (fst ?w1) = settings (fst w)"
      "timerGenerator (fst ?w1) = Some ?g1"
      "phase (fst ?w1) = Some (yPhase (createTimers (settings (fst w)) g))"
      using generatorNext_fields [of g "fst w" "snd w"] by simp_all
    have step: "inStep n ?g1 (phase (fst ?w1))" "stepsToLongBreak n ?g1 < k"
      using inStep_createTimers [OF less.prems(1) less.prems(2) less.prems(4) False] fields less.prems(5)
      by simp_all
    have "\<exists>r. fastForward LongBreak ?w1 (acc @ snd (generatorNext g w)) = Some r"
      using less.IH [OF step(2) less.prems(1) _ fields(2) step(1) refl] fields(1) less.prems(2)
      by simp
    then show ?thesis
      using fastForward_step [OF ph less.prems(3)] by simp
  qed
qed

lemma fastForward_fresh:
  assumes ret: "fastForward ph0 w0 acc0 = Some y0"
  shows "(phase (fst w0) = Some ph0 \<longrightarrow> y0 = (w0, acc0)) \<and>
         (phase (fst w0) \<noteq> Some ph0 \<longrightarrow>
            timer (fst (fst y0)) = Some (freshTimer (settings (fst w0)) ph0)) \<and>
         phase (fst (fst y0)) = Some ph0 \<and>
         settings (fst (fst y0)) = settings (fst w0) \<and>
         hasObserver (fst (fst y0)) = hasObserver (fst w0)"
proof (rule fastForward.raw_induct
    [where P = "\<lambda>ph w acc y.
         (phase (fst w) = Some ph \<longrightarrow> y = (w, acc)) \<and>
         (phase (fst w) \<noteq> Some ph \<longrightarrow>
            timer (fst (fst y)) = Some (freshTimer (settings (fst w)) ph)) \<and>
         phase (fst (fst y)) = Some ph \<and>
         settings (fst (fst y)) = settings (fst w) \<and>
         hasObserver (fst (fst y)) = hasObserver (fst w)", OF _ ret])
  fix ff :: "Phase \<Rightarrow> PomodoroTimer \<times> Scheduler \<Rightarrow> SeqEvent list
      \<Rightarrow> ((PomodoroTimer \<times> Scheduler) \<times> SeqEvent list) option"
  fix ph w acc y
  assume IH: "\<And>ph w acc y. ff ph w acc = Some y \<Longrightarrow>
         (phase (fst w) = Some ph \<longrightarrow> y = (w, acc)) \<and>
         (phase (fst w) \<noteq> Some ph \<longrightarrow>
            timer (fst (fst y)) = Some (freshTimer (settings (fst w)) ph)) \<and>
         phase (fst (fst y)) = Some ph \<and>
         settings (fst (fst y)) = settings (fst w) \<and>
         hasObserver (fst (fst y)) = hasObserver (fst w)"
  assume body: "(if phase (fst w) = Some ph then Some (w, acc)
        else case timerGenerator (fst w) of None \<Rightarrow> None
             | Some g \<Rightarrow> ff ph (fst (generatorNext g w)) (acc @ snd (generatorNext g w))) = Some y"
  show "(phase (fst w) = Some ph \<longrightarrow> y = (w, acc)) \<and>
         (phase (fst w) \<noteq> Some ph \<longrightarrow>
            timer (fst (fst y)) = Some (freshTimer (settings (fst w)) ph)) \<and>
         phase (fst (fst y)) = Some ph \<and>
         settings (fst (fst y)) = settings (fst w) \<and>
         hasObserver (fst (fst y)) = hasObserver (fst w)"
  proof (cases "phase (fst w) = Some ph")
    case True
    then show ?thesis using body by auto
  next
    case False
    then obtain g where g: "timerGenerator (fst w) = Some g"
      and call: "ff ph (fst (generatorNext g w)) (acc @ snd (generatorNext g w)) = Some y"
      using body by (auto split: option.splits)
    let ?w1 = "fst (generatorNext g w)"
    have fields: "settings (fst ?w1) = settings (fst w)"
      "hasObserver (fst ?w1) = hasObserver (fst w)"
      "phase (fst ?w1) = Some (yPhase (createTimers (settings (fst w)) g))"
      "timer (fst ?w1) = Some (freshTimer (settings (fst w)) (yPhase (createTimers (settings (fst w)) g)))"
      using generatorNext_fields [of g "fst w" "snd w"] by simp_all
    show ?thesis
    proof (cases "phase (fst ?w1) = Some ph")
      case True
      then have "y = (?w1, acc @ snd (generatorNext g w))" using IH [OF call] by simp
      then show ?thesis using False True fields by simp
    next
      case nomatch: False
      then show ?thesis using IH [OF call] False fields by simp
    qed
  qed
qed

lemma setPhase_throws:
  "newPhase = LongBreak \<Longrightarrow> \<not> hasLongBreak (fst w) \<Longrightarrow>
   setPhase newPhase w = Some (Thrown InvalidConfiguration, w, [])"
  by (simp add: setPhase_def)

lemma setPhase_throws_only_then:
  "setPhase newPhase w = Some (Thrown e, w', evs) \<Longrightarrow>
   newPhase = LongBreak \<and> \<not> hasLongBreak (fst w)"
  by (auto simp: setPhase_def split: if_splits option.splits)

lemma setPhase_returns_if_loop_does:
  "\<not> (\<not> hasLongBreak (fst w) \<and> newPhase = LongBreak) \<Longrightarrow>
   fastForward newPhase ((fst w)\<lparr> timerGenerator := Some AtEntry, phase := None \<rparr>, snd w) []
     = Some r \<Longrightarrow>
   \<exists>w' evs. setPhase newPhase w = Some (Returned, w', evs)"
  by (cases r) (auto simp: setPhase_def split: prod.splits)

text \<open>One pass reaches Focus, two reach ShortBreak, when the loop test holds at index 0.\<close>

lemma fastForward_Focus:
  assumes "phase p = None" "timerGenerator p = Some AtEntry"
    and "loopTest (longBreak_interval (settings p)) 0"
  shows "fastForward Focus (p, s) acc =
     Some (fst (generatorNext AtEntry (p, s)), acc @ snd (generatorNext AtEntry (p, s)))"
proof -
  have "phase (fst (fst (generatorNext AtEntry (p, s)))) = Some Focus"
    using assms(3) generatorNext_fields(2) [of AtEntry p s] by (simp add: atLoopTest_def)
  then show ?thesis
    using fastForward_step [of "(p, s)" Focus AtEntry acc] assms(1,2)
    by (simp add: fastForward_done)
qed

lemma fastForward_ShortBreak:
  assumes "phase p = None" "timerGenerator p = Some AtEntry"
    and "loopTest (longBreak_interval (settings p)) 0"
  shows "fastForward ShortBreak (p, s) acc =
     Some (fst (generatorNext (AtFocus 0) (fst (generatorNext AtEntry (p, s)))),
           (acc @ snd (generatorNext AtEntry (p, s))) @
           snd (generatorNext (AtFocus 0) (fst (generatorNext AtEntry (p, s)))))"
proof -
  let ?w1 = "fst (generatorNext AtEntry (p, s))"
  let ?w2 = "fst (generatorNext (AtFocus 0) ?w1)"
  have one: "phase (fst ?w1) = Some Focus" "timerGenerator (fst ?w1) = Some (AtFocus 0)"
    using assms(3) generatorNext_fields [of AtEntry p s] by (simp_all add: atLoopTest_def)
  have two: "phase (fst ?w2) = Some ShortBreak"
    using generatorNext_fields(2) [of "AtFocus 0" "fst ?w1" "snd ?w1"] by simp
  have "fastForward ShortBreak (p, s) acc =
      fastForward ShortBreak ?w1 (acc @ snd (generatorNext AtEntry (p, s)))"
    using fastForward_step [of "(p, s)" ShortBreak AtEntry acc] assms(1,2) by simp
  also have "\<dots> = fastForward ShortBreak ?w2
      ((acc @ snd (generatorNext AtEntry (p, s))) @ snd (generatorNext (AtFocus 0) ?w1))"
    using fastForward_step [of ?w1 ShortBreak "AtFocus 0"] one by simp
  also have "\<dots> = Some (?w2,
      (acc @ snd (generatorNext AtEntry (p, s))) @ snd (generatorNext (AtFocus 0) ?w1))"
    using two by (rule fastForward_done)
  finally show ?thesis .
qed

lemma loopTest_0: "loopTest iv 0 = (case iv of None \<Rightarrow> True | Some n \<Rightarrow> 0 \<le> n)"
  by (auto simp: loopTest_def truthy_def split: option.splits)

lemma setPhase_returns:
  assumes "case longBreak_interval (settings (fst w)) of None \<Rightarrow> True | Some n \<Rightarrow> 0 \<le> n"
    and "\<not> (\<not> hasLongBreak (fst w) \<and> newPhase = LongBreak)"
  shows "\<exists>w' evs. setPhase newPhase w = Some (Returned, w', evs)"
proof -
  let ?p = "(fst w)\<lparr> timerGenerator := Some AtEntry, phase := None \<rparr>"
  have lt: "loopTest (longBreak_interval (settings ?p)) 0"
    using assms(1) by (simp add: loopTest_0)
  have "\<exists>r. fastForward newPhase (?p, snd w) [] = Some r"
  proof (cases newPhase)
    case Focus
    then show ?thesis using fastForward_Focus [OF _ _ lt] by simp
  next
    case ShortBreak
    then show ?thesis using fastForward_ShortBreak [OF _ _ lt] by simp
  next
    case LongBreak
    then obtain n where n: "longBreak_interval (settings (fst w)) = Some n" "0 < n"
      using assms(2) by (auto simp: hasLongBreak_def split: option.splits)
    show ?thesis
      unfolding LongBreak
      by (rule fastForward_LongBreak_returns [of n _ AtEntry]) (simp_all add: n)
  qed
  then show ?thesis using setPhase_returns_if_loop_does [OF assms(2)] by blast
qed

text \<open>
  C5. The setter throws exactly when the target is LongBreak and the interval is not
  greater than 0 (or is absent); what it throws then is the InvalidConfiguration error,
  with the sequencer and the scheduler as they were and no event emitted. For every
  other call no error is raised; and whenever the interval is greater than 0, the call
  returns normally for every target, LongBreak included.
\<close>

theorem setPhase_error_exactly:
  "((\<exists>e w' evs. setPhase newPhase w = Some (Thrown e, w', evs)) =
      (newPhase = LongBreak \<and> \<not> hasLongBreak (fst w))) \<and>
   (newPhase = LongBreak \<and> \<not> hasLongBreak (fst w) \<longrightarrow>
      setPhase newPhase w = Some (Thrown InvalidConfiguration, w, [])) \<and>
   (hasLongBreak (fst w) \<longrightarrow> (\<exists>w' evs. setPhase newPhase w = Some (Returned, w', evs)))"
proof (intro conjI impI)
  show "(\<exists>e w' evs. setPhase newPhase w = Some (Thrown e, w', evs)) =
      (newPhase = LongBreak \<and> \<not> hasLongBreak (fst w))"
    using setPhase_throws [of newPhase w] setPhase_throws_only_then [of newPhase w] by blast
next
  assume "newPhase = LongBreak \<and> \<not> hasLongBreak (fst w)"
  then show "setPhase newPhase w = Some (Thrown InvalidConfiguration, w, [])"
    by (simp add: setPhase_throws)
next
  assume h: "hasLongBreak (fst w)"
  then have "case longBreak_interval (settings (fst w)) of None \<Rightarrow> True | Some n \<Rightarrow> 0 \<le> n"
    by (auto simp: hasLongBreak_def split: option.splits)
  then show "\<exists>w' evs. setPhase newPhase w = Some (Returned, w', evs)"
    using h by (intro setPhase_returns) simp_all
qed

theorem setPhase_error_exactly_witness:
  "\<not> hasLongBreak (blank (sampleSettings (Some 0))) \<and>
   setPhase LongBreak (blank (sampleSettings (Some 0)), emptyScheduler) =
     Some (Thrown InvalidConfiguration, (blank (sampleSettings (Some 0)), emptyScheduler), []) \<and>
   hasLongBreak (blank (sampleSettings (Some 2))) \<and>
   (\<exists>w' evs. setPhase LongBreak (blank (sampleSettings (Some 2)), emptyScheduler) =
      Some (Returned, w', evs))"
  using setPhase_error_exactly [of LongBreak "(blank (sampleSettings (Some 0)), emptyScheduler)"]
    setPhase_error_exactly [of LongBreak "(blank (sampleSettings (Some 2)), emptyScheduler)"]
  by (simp add: hasLongBreak_def blank_def sampleSettings_def)


section \<open>Starting the sequencer\<close>

lemma relay_flag [simp]: "relay (p\<lparr> startOfCycle := b \<rparr>) t evs = relay p t evs"
  by (simp add: relay_def)

lemma start_at_start_of_cycle:
  "startOfCycle p \<Longrightarrow> timer p = Some t \<Longrightarrow>
   PomodoroTimer_start now (p, s) =
     (Returned,
      (p\<lparr> startOfCycle := False, timer := Some (fst (fst (Timer_start now (t, s)))) \<rparr>,
       snd (fst (Timer_start now (t, s)))),
      relay p t (snd (Timer_start now (t, s))))"
  by (simp add: Let_def split: prod.splits)

lemma Timer_start_fresh:
  "Timer_start now (freshTimer st ph, s) =
     (((freshTimer st ph)\<lparr> expireTimeout := Some (nextId s), tickInterval := Some (Suc (nextId s)),
          remaining := Some (secondsOf (minutesOf st ph)), state := Running,
          periodStartTime := Some now \<rparr>,
       s\<lparr> nextId := Suc (Suc (nextId s)),
          timeouts := timeouts s @ [(nextId s, secondsOf (minutesOf st ph) * 1000)],
          intervals := intervals s @ [(Suc (nextId s), 60 * 1000)] \<rparr>),
      [EvStart 0 (secondsOf (minutesOf st ph)), EvChange])"
  by (simp add: freshTimer_def Timer_new_def setTimeout_def setInterval_def Let_def numOf_def)

lemma Timer_start_fresh_startedAt:
  "startedAt now (secondsOf (minutesOf st ph))
     (fst (fst (Timer_start now (freshTimer st ph, s))))
     (snd (fst (Timer_start now (freshTimer st ph, s))))"
  unfolding Timer_start_fresh by (simp add: startedAt_def freshTimer_def Timer_new_def)

lemma relay_fresh:
  "relay p (freshTimer st ph) evs = map (TimerEv (phase p) (nextPhase p)) evs"
  by (simp add: relay_def freshTimer_def)

lemma start_advances:
  assumes "\<not> startOfCycle p" "timerGenerator p = Some g"
  shows "\<exists>p' s' t'.
     PomodoroTimer_start now (p, s) =
       (Returned, (p', s'),
        snd (generatorNext g (p, s)) @
        [TimerEv (Some (yPhase (createTimers (settings p) g)))
           (Some (yNext (createTimers (settings p) g)))
           (EvStart 0 (secondsOf (minutesOf (settings p) (yPhase (createTimers (settings p) g))))),
         TimerEv (Some (yPhase (createTimers (settings p) g)))
           (Some (yNext (createTimers (settings p) g))) EvChange]) \<and>
     timerGenerator p' = Some (yGen (createTimers (settings p) g)) \<and>
     phase p' = Some (yPhase (createTimers (settings p) g)) \<and>
     nextPhase p' = Some (yNext (createTimers (settings p) g)) \<and>
     timer p' = Some t' \<and>
     startedAt now (secondsOf (minutesOf (settings p) (yPhase (createTimers (settings p) g)))) t' s'"
proof -
  obtain p1 s1 evs1 where n: "generatorNext g (p, s) = ((p1, s1), evs1)"
    by (cases "generatorNext g (p, s)") auto
  have f: "timer p1 = Some (freshTimer (settings p) (yPhase (createTimers (settings p) g)))"
    "timerGenerator p1 = Some (yGen (createTimers (settings p) g))"
    "phase p1 = Some (yPhase (createTimers (settings p) g))"
    "nextPhase p1 = Some (yNext (createTimers (settings p) g))"
    using generatorNext_fields [of g p s] n by simp_all
  let ?ph = "yPhase (createTimers (settings p) g)"
  let ?r = "Timer_start now (freshTimer (settings p) ?ph, s1)"
  have ot: "onTimer (Timer_start now) (p1, s1) =
      (Returned, (p1\<lparr> timer := Some (fst (fst ?r)) \<rparr>, snd (fst ?r)),
       relay p1 (freshTimer (settings p) ?ph) (snd ?r))"
    using f(1) by (simp add: Let_def split: prod.splits)
  have evs: "relay p1 (freshTimer (settings p) ?ph) (snd ?r) =
      [TimerEv (Some ?ph) (Some (yNext (createTimers (settings p) g)))
         (EvStart 0 (secondsOf (minutesOf (settings p) ?ph))),
       TimerEv (Some ?ph) (Some (yNext (createTimers (settings p) g))) EvChange]"
    unfolding relay_fresh Timer_start_fresh using f(3,4) by simp
  have "PomodoroTimer_start now (p, s) =
      (Returned, (p1\<lparr> timer := Some (fst (fst ?r)) \<rparr>, snd (fst ?r)),
       evs1 @ relay p1 (freshTimer (settings p) ?ph) (snd ?r))"
    using assms n ot by simp
  then show ?thesis
    using f n evs Timer_start_fresh_startedAt [of now "settings p" ?ph s1] by simp
qed

lemma timerOnly_keeps_phase:
  assumes "timerOnly x" "runSeqOp x (p, s) = Some (out, (p', s'), evs)" "phase p = Some ph"
  shows "phase p' = Some ph \<and> list_all (taggedWith ph) evs"
proof -
  have on: "\<And>f out p' s' evs. onTimer f (p, s) = (out, (p', s'), evs) \<Longrightarrow>
      phase p' = Some ph \<and> list_all (taggedWith ph) evs"
    using assms(3)
    by (auto simp: relay_def list_all_iff split: option.splits prod.splits if_splits)
  show ?thesis
    using assms(1,2) on assms(3)
    by (cases x)
       (auto simp: PomodoroTimer_stop_def PomodoroTimer_pause_def PomodoroTimer_resume_def
          PomodoroTimer_reset_def split: option.splits if_splits simp del: onTimer.simps)
qed

lemma timerOnly_run_tagged:
  "list_all timerOnly xs \<Longrightarrow> runSeqOps xs w acc = Some (w', evs) \<Longrightarrow>
   phase (fst w) = Some ph \<Longrightarrow> list_all (taggedWith ph) acc \<Longrightarrow>
   list_all (taggedWith ph) evs"
proof (induction xs arbitrary: w acc)
  case Nil
  then show ?case by simp
next
  case (Cons x xs)
  obtain out p1 s1 evs1 where step: "runSeqOp x w = Some (out, (p1, s1), evs1)"
    using Cons.prems(2) by (cases "runSeqOp x w") (auto split: prod.splits)
  have k: "phase p1 = Some ph \<and> list_all (taggedWith ph) evs1"
    using timerOnly_keeps_phase [of x "fst w" "snd w" out p1 s1 evs1 ph] Cons.prems(1,3) step
    by simp
  have "runSeqOps xs (p1, s1) (acc @ evs1) = Some (w', evs)"
    using Cons.prems(2) step by simp
  then show ?case
    using Cons.IH [of "(p1, s1)" "acc @ evs1"] Cons.prems(1,4) k by simp
qed

lemma setPhase_leaves_fresh:
  assumes "setPhase ph (p, s) = Some (Returned, (p1, s1), evs1)"
  shows "phase p1 = Some ph \<and> timer p1 = Some (freshTimer (settings p) ph) \<and> startOfCycle p1 \<and>
         settings p1 = settings p \<and> hasObserver p1 = hasObserver p"
proof -
  let ?w0 = "(p\<lparr> timerGenerator := Some AtEntry, phase := None \<rparr>, s)"
  obtain p2 s2 evs2 where ff: "fastForward ph ?w0 [] = Some ((p2, s2), evs2)"
    and p1: "p1 = p2\<lparr> startOfCycle := True \<rparr>"
    using assms by (auto simp: setPhase_def split: if_splits option.splits prod.splits)
  show ?thesis using fastForward_fresh [OF ff] p1 by simp
qed

lemma set_phase_then_start:
  assumes "setPhase ph (p, s) = Some (Returned, w1, evs1)"
  shows "\<exists>w2 t2.
     PomodoroTimer_start now w1 =
       (Returned, w2,
        [TimerEv (Some ph) (nextPhase (fst w1)) (EvStart 0 (secondsOf (minutesOf (settings p) ph))),
         TimerEv (Some ph) (nextPhase (fst w1)) EvChange]) \<and>
     \<not> startOfCycle (fst w2) \<and> timerGenerator (fst w2) = timerGenerator (fst w1) \<and>
     phase (fst w2) = Some ph \<and>
     timer (fst w2) = Some t2 \<and>
     startedAt now (secondsOf (minutesOf (settings p) ph)) t2 (snd w2)"
proof -
  obtain p1 s1 where w1: "w1 = (p1, s1)" by (cases w1)
  have f: "phase p1 = Some ph" "timer p1 = Some (freshTimer (settings p) ph)"
    "startOfCycle p1"
    using setPhase_leaves_fresh [of ph p s p1 s1 evs1] assms w1 by simp_all
  let ?r = "Timer_start now (freshTimer (settings p) ph, s1)"
  have evs: "relay p1 (freshTimer (settings p) ph) (snd ?r) =
      [TimerEv (Some ph) (nextPhase p1) (EvStart 0 (secondsOf (minutesOf (settings p) ph))),
       TimerEv (Some ph) (nextPhase p1) EvChange]"
    unfolding relay_fresh Timer_start_fresh using f(1) by simp
  show ?thesis
    unfolding w1 start_at_start_of_cycle [OF f(3) f(2)] evs
    using f(1) Timer_start_fresh_startedAt [of now "settings p" ph s1] by simp
qed

lemma constructor_otherwise:
  assumes "case longBreak_interval st of None \<Rightarrow> True | Some n \<Rightarrow> 0 \<le> n"
    and "\<not> (initialPhase = LongBreak \<and> \<not> hasLongBreak (blank st))"
  shows "\<exists>p s' evs. PomodoroTimer_new st initialPhase s = Some (Returned, (p, s'), evs) \<and>
     phase p = Some initialPhase \<and> startOfCycle p \<and> CycleReset initialPhase \<in> set evs \<and>
     \<not> hasObserver p \<and> forward p evs = []"
proof -
  obtain w' evs where r: "setPhase initialPhase (blank st, s) = Some (Returned, w', evs)"
    using setPhase_returns [of "(blank st, s)" initialPhase] assms by (auto simp: blank_def)
  obtain p s' where w': "w' = (p, s')" by (cases w')
  have f: "phase p = Some initialPhase" "startOfCycle p" "hasObserver p = hasObserver (blank st)"
    using setPhase_leaves_fresh [of initialPhase "blank st" s p s' evs] r w' by simp_all
  have "CycleReset initialPhase \<in> set evs"
    using r by (auto simp: setPhase_def split: if_splits option.splits prod.splits)
  then show ?thesis
    using r w' f by (simp add: PomodoroTimer_new_def forward_def blank_def)
qed

lemma secondsOf_whole_minutes:
  "secondsOf 5 = 300" "secondsOf 15 = 900" "secondsOf 25 = 1500"
  by code_simp+

text \<open>
  For fractional minutes the floor is taken of the rounded product, which can lie on
  either side of the exact one.
\<close>

lemma secondsOf_fractional_minutes:
  "secondsOf (41 / 10) = 245" "secondsOf (82 / 10) = 491" "secondsOf (3 / 10) = 18"
  "binary64 (3 / 10) = 5404319552844595 / 18014398509481984"
  by code_simp+

lemma sample_setPhase:
  "setPhase ShortBreak (sampleAtShortBreak, emptyScheduler) =
     Some (Returned, (sampleAtShortBreak, emptyScheduler), [CycleReset ShortBreak])"
proof -
  let ?p = "sampleAtShortBreak\<lparr> timerGenerator := Some AtEntry, phase := None \<rparr>"
  have lt: "loopTest (longBreak_interval (settings ?p)) 0"
    by (simp add: loopTest_0 sampleAtShortBreak_def sampleSettings_def)
  have "fastForward ShortBreak (?p, emptyScheduler) [] =
     Some (fst (generatorNext (AtFocus 0) (fst (generatorNext AtEntry (?p, emptyScheduler)))),
           ([] @ snd (generatorNext AtEntry (?p, emptyScheduler))) @
           snd (generatorNext (AtFocus 0) (fst (generatorNext AtEntry (?p, emptyScheduler)))))"
    by (rule fastForward_ShortBreak [OF _ _ lt]) (simp_all add: sampleAtShortBreak_def)
  then show ?thesis
    by (simp add: setPhase_def hasLongBreak_def sampleAtShortBreak_def sampleSettings_def
          atLoopTest_def loopTest_def truthy_def Timer_new_def secondsOf_whole_minutes relay_def)
qed

text \<open>
  What \<^verbatim>\<open>start()\<close> of the sequencer does at clock reading \<open>now\<close>.
  \<^item> With the start-of-cycle flag set, it clears the flag, leaves the generator where it
    is and calls \<^verbatim>\<open>start()\<close> on the timer that is installed.
  \<^item> Otherwise it resumes the generator once, which installs a new timer of
    \<open>secondsOf minutes\<close> seconds, for the minutes configured for the phase produced,
    with a tick period of 60 seconds; that timer is started, its expiry and its progress
    callback are scheduled, and \<^verbatim>\<open>timer:start\<close> and \<^verbatim>\<open>timer:change\<close> are emitted
    with the new phase after the events of stopping the timer that was replaced.
  \<^item> When the setter has returned for a phase \<open>ph\<close>, the start that follows emits
    \<^verbatim>\<open>timer:start\<close> and \<^verbatim>\<open>timer:change\<close> tagged \<open>ph\<close>, does not move the
    generator, and leaves a started timer of the duration configured for \<open>ph\<close>; every
    event of the calls that follow on the held timer (stop, pause, resume, reset, tick
    and expiry firings) is a \<^verbatim>\<open>timer:\<close> event tagged \<open>ph\<close>.
  \<^item> With an absent or non-negative interval the setter does return for ShortBreak.
\<close>

lemma start_behaviour:
  "(startOfCycle p \<and> timer p = Some t \<longrightarrow>
      PomodoroTimer_start now (p, s) =
        (Returned,
         (p\<lparr> startOfCycle := False, timer := Some (fst (fst (Timer_start now (t, s)))) \<rparr>,
          snd (fst (Timer_start now (t, s)))),
         relay p t (snd (Timer_start now (t, s))))) \<and>
   (\<not> startOfCycle p \<and> timerGenerator p = Some g \<longrightarrow>
      (\<exists>p' s' t'.
         PomodoroTimer_start now (p, s) =
           (Returned, (p', s'),
            snd (generatorNext g (p, s)) @
            [TimerEv (Some (yPhase (createTimers (settings p) g)))
               (Some (yNext (createTimers (settings p) g)))
               (EvStart 0
                  (secondsOf (minutesOf (settings p) (yPhase (createTimers (settings p) g))))),
             TimerEv (Some (yPhase (createTimers (settings p) g)))
               (Some (yNext (createTimers (settings p) g))) EvChange]) \<and>
         timerGenerator p' = Some (yGen (createTimers (settings p) g)) \<and>
         phase p' = Some (yPhase (createTimers (settings p) g)) \<and>
         nextPhase p' = Some (yNext (createTimers (settings p) g)) \<and>
         timer p' = Some t' \<and>
         startedAt now
           (secondsOf (minutesOf (settings p) (yPhase (createTimers (settings p) g)))) t' s')) \<and>
   (setPhase ph (p, s) = Some (Returned, w1, evs1) \<longrightarrow>
      (\<exists>w2 t2.
         PomodoroTimer_start now w1 =
           (Returned, w2,
            [TimerEv (Some ph) (nextPhase (fst w1))
               (EvStart 0 (secondsOf (minutesOf (settings p) ph))),
             TimerEv (Some ph) (nextPhase (fst w1)) EvChange]) \<and>
         \<not> startOfCycle (fst w2) \<and> timerGenerator (fst w2) = timerGenerator (fst w1) \<and>
         phase (fst w2) = Some ph \<and>
         timer (fst w2) = Some t2 \<and>
         startedAt now (secondsOf (minutesOf (settings p) ph)) t2 (snd w2) \<and>
         (\<forall>xs w3 evs3. list_all timerOnly xs \<and> runSeqOps xs w2 [] = Some (w3, evs3) \<longrightarrow>
            list_all (taggedWith ph) evs3))) \<and>
   ((case longBreak_interval (settings p) of None \<Rightarrow> True | Some n \<Rightarrow> 0 \<le> n) \<longrightarrow>
      (\<exists>w1 evs1. setPhase ShortBreak (p, s) = Some (Returned, w1, evs1)))"
proof (intro conjI impI)
  assume "startOfCycle p \<and> timer p = Some t"
  then show "PomodoroTimer_start now (p, s) =
        (Returned,
         (p\<lparr> startOfCycle := False, timer := Some (fst (fst (Timer_start now (t, s)))) \<rparr>,
          snd (fst (Timer_start now (t, s)))),
         relay p t (snd (Timer_start now (t, s))))"
    using start_at_start_of_cycle by blast
next
  assume "\<not> startOfCycle p \<and> timerGenerator p = Some g"
  then show "\<exists>p' s' t'.
         PomodoroTimer_start now (p, s) =
           (Returned, (p', s'),
            snd (generatorNext g (p, s)) @
            [TimerEv (Some (yPhase (createTimers (settings p) g)))
               (Some (yNext (createTimers (settings p) g)))
               (EvStart 0
                  (secondsOf (minutesOf (settings p) (yPhase (createTimers (settings p) g))))),
             TimerEv (Some (yPhase (createTimers (settings p) g)))
               (Some (yNext (createTimers (settings p) g))) EvChange]) \<and>
         timerGenerator p' = Some (yGen (createTimers (settings p) g)) \<and>
         phase p' = Some (yPhase (createTimers (settings p) g)) \<and>
         nextPhase p' = Some (yNext (createTimers (settings p) g)) \<and>
         timer p' = Some t' \<and>
         startedAt now
           (secondsOf (minutesOf (settings p) (yPhase (createTimers (settings p) g)))) t' s'"
    using start_advances [of p g now s] by blast
next
  assume sp: "setPhase ph (p, s) = Some (Returned, w1, evs1)"
  obtain w2 t2 where r: "PomodoroTimer_start now w1 =
       (Returned, w2,
        [TimerEv (Some ph) (nextPhase (fst w1))
           (EvStart 0 (secondsOf (minutesOf (settings p) ph))),
         TimerEv (Some ph) (nextPhase (fst w1)) EvChange])"
     "\<not> startOfCycle (fst w2)" "timerGenerator (fst w2) = timerGenerator (fst w1)"
     "phase (fst w2) = Some ph"
     "timer (fst w2) = Some t2"
     "startedAt now (secondsOf (minutesOf (settings p) ph)) t2 (snd w2)"
    using set_phase_then_start [OF sp, of now] by blast
  have tagged: "\<forall>xs w3 evs3. list_all timerOnly xs \<and> runSeqOps xs w2 [] = Some (w3, evs3) \<longrightarrow>
            list_all (taggedWith ph) evs3"
    using timerOnly_run_tagged [of _ w2 "[]" _ _ ph] r(4) by auto
  show "\<exists>w2 t2.
         PomodoroTimer_start now w1 =
           (Returned, w2,
            [TimerEv (Some ph) (nextPhase (fst w1))
               (EvStart 0 (secondsOf (minutesOf (settings p) ph))),
             TimerEv (Some ph) (nextPhase (fst w1)) EvChange]) \<and>
         \<not> startOfCycle (fst w2) \<and> timerGenerator (fst w2) = timerGenerator (fst w1) \<and>
         phase (fst w2) = Some ph \<and>
         timer (fst w2) = Some t2 \<and>
         startedAt now (secondsOf (minutesOf (settings p) ph)) t2 (snd w2) \<and>
         (\<forall>xs w3 evs3. list_all timerOnly xs \<and> runSeqOps xs w2 [] = Some (w3, evs3) \<longrightarrow>
            list_all (taggedWith ph) evs3)"
    using r tagged by blast
next
  assume "case longBreak_interval (settings p) of None \<Rightarrow> True | Some n \<Rightarrow> 0 \<le> n"
  then show "\<exists>w1 evs1. setPhase ShortBreak (p, s) = Some (Returned, w1, evs1)"
    using setPhase_returns [of "(p, s)" ShortBreak] by simp
qed

text \<open>
  An instance: assigning ShortBreak and starting at clock reading 0 under the sample
  settings starts a timer of 300 seconds, with expiry pending after 300000 milliseconds
  and the progress callback every 60000.
\<close>

lemma start_behaviour_example:
  "setPhase ShortBreak (sampleAtShortBreak, emptyScheduler) =
     Some (Returned, (sampleAtShortBreak, emptyScheduler), [CycleReset ShortBreak]) \<and>
   PomodoroTimer_start 0 (sampleAtShortBreak, emptyScheduler) =
     (Returned,
      (sampleAtShortBreak\<lparr> startOfCycle := False,
         timer := Some \<lparr> state = Running, duration = 300, tick = 60, tickInterval = Some 1,
                          expireTimeout = Some 0, periodStartTime = Some 0,
                          remaining = Some 300, hasListeners = True \<rparr> \<rparr>,
       \<lparr> nextId = 2, timeouts = [(0, 300000)], intervals = [(1, 60000)] \<rparr>),
      [TimerEv (Some ShortBreak) (Some Focus) (EvStart 0 300),
       TimerEv (Some ShortBreak) (Some Focus) EvChange])"
proof -
  have t: "timer sampleAtShortBreak = Some (freshTimer (sampleSettings (Some 4)) ShortBreak)"
    "startOfCycle sampleAtShortBreak"
    by (simp_all add: sampleAtShortBreak_def sampleSettings_def freshTimer_def Timer_new_def
          secondsOf_whole_minutes)
  have "PomodoroTimer_start 0 (sampleAtShortBreak, emptyScheduler) =
     (Returned,
      (sampleAtShortBreak\<lparr> startOfCycle := False,
         timer := Some \<lparr> state = Running, duration = 300, tick = 60, tickInterval = Some 1,
                          expireTimeout = Some 0, periodStartTime = Some 0,
                          remaining = Some 300, hasListeners = True \<rparr> \<rparr>,
       \<lparr> nextId = 2, timeouts = [(0, 300000)], intervals = [(1, 60000)] \<rparr>),
      [TimerEv (Some ShortBreak) (Some Focus) (EvStart 0 300),
       TimerEv (Some ShortBreak) (Some Focus) EvChange])"
    unfolding start_at_start_of_cycle [OF t(2) t(1)] Timer_start_fresh relay_fresh
    by (simp add: sampleAtShortBreak_def sampleSettings_def freshTimer_def Timer_new_def
          secondsOf_whole_minutes emptyScheduler_def)
  then show ?thesis using sample_setPhase by simp
qed




section \<open>Properties of the wrapper\<close>

lemma onTimer_hasObserver:
  "onTimer f (p, s) = (out, (p', s'), evs) \<Longrightarrow> hasObserver p' = hasObserver p"
  by (auto split: option.splits prod.splits)

lemma setPhase_hasObserver:
  assumes "setPhase ph (p, s) = Some (out, (p', s'), evs)"
  shows "hasObserver p' = hasObserver p"
proof (cases out)
  case Returned
  then show ?thesis using setPhase_leaves_fresh [of ph p s p' s' evs] assms by simp
next
  case (Thrown e)
  then show ?thesis
    using assms by (auto simp: setPhase_def split: if_splits option.splits prod.splits)
qed

lemma start_hasObserver:
  assumes "PomodoroTimer_start now (p, s) = (out, (p', s'), evs)"
  shows "hasObserver p' = hasObserver p"
proof (cases "startOfCycle p")
  case True
  then have "onTimer (Timer_start now) (p\<lparr> startOfCycle := False \<rparr>, s) = (out, (p', s'), evs)"
    using assms by simp
  then show ?thesis using onTimer_hasObserver by fastforce
next
  case False
  show ?thesis
  proof (cases "timerGenerator p")
    case None
    then show ?thesis using assms False by simp
  next
    case (Some g)
    obtain p1 s1 evs1 where n: "generatorNext g (p, s) = ((p1, s1), evs1)"
      by (cases "generatorNext g (p, s)") auto
    obtain out2 p2 s2 evs2 where o: "onTimer (Timer_start now) (p1, s1) = (out2, (p2, s2), evs2)"
      by (cases "onTimer (Timer_start now) (p1, s1)") auto
    have "p' = p2" using assms False Some n o by simp
    moreover have "hasObserver p2 = hasObserver p1" using onTimer_hasObserver [OF o] .
    moreover have "hasObserver p1 = hasObserver p"
      using generatorNext_fields(7) [of g p s] n by simp
    ultimately show ?thesis by simp
  qed
qed

lemma startAt_hasObserver:
  assumes "startAt ph now (p, s) = Some (out, (p', s'), evs)"
  shows "hasObserver p' = hasObserver p"
proof (cases "setPhase ph (p, s)")
  case None
  then show ?thesis using assms by (simp add: startAt_def)
next
  case (Some r)
  obtain out1 p1 s1 evs1 where r: "r = (out1, (p1, s1), evs1)" by (cases r) auto
  have h1: "hasObserver p1 = hasObserver p"
    using setPhase_hasObserver [of ph p s out1 p1 s1 evs1] Some r by simp
  show ?thesis
  proof (cases out1)
    case Returned
    obtain out2 p2 s2 evs2 where st: "PomodoroTimer_start now (p1, s1) = (out2, (p2, s2), evs2)"
      by (cases "PomodoroTimer_start now (p1, s1)") auto
    have "p' = p2" using assms Some r Returned st by (simp add: startAt_def)
    then show ?thesis using start_hasObserver [OF st] h1 by simp
  next
    case (Thrown e)
    then show ?thesis using assms Some r h1 by (simp add: startAt_def)
  qed
qed

lemma fire_hasObserver:
  "PomodoroTimer_fireTick h now (p, s) = (out, (p', s'), evs) \<Longrightarrow> hasObserver p' = hasObserver p"
  "PomodoroTimer_fireExpire h (p, s) = (out, (p', s'), evs) \<Longrightarrow> hasObserver p' = hasObserver p"
  by (auto split: option.splits prod.splits if_splits)

lemma runSeqOp_hasObserver:
  assumes "runSeqOp x (p, s) = Some (out, (p', s'), evs)"
  shows "hasObserver p' = hasObserver p"
proof (cases x)
  case (SStart now)
  then show ?thesis using assms start_hasObserver by simp
next
  case SStop
  then show ?thesis using assms onTimer_hasObserver by (simp add: PomodoroTimer_stop_def)
next
  case (SPause now)
  then show ?thesis using assms onTimer_hasObserver by (simp add: PomodoroTimer_pause_def)
next
  case (SResume now)
  then show ?thesis using assms onTimer_hasObserver by (simp add: PomodoroTimer_resume_def)
next
  case (SReset now)
  then show ?thesis using assms onTimer_hasObserver by (simp add: PomodoroTimer_reset_def)
next
  case (SSetPhase ph)
  then show ?thesis using assms setPhase_hasObserver by simp
next
  case (SStartCycle now)
  then show ?thesis using assms startAt_hasObserver by (simp add: startCycle_def)
next
  case (SStartFocus now)
  then show ?thesis using assms startAt_hasObserver by (simp add: startFocus_def startCycle_def)
next
  case (SStartShortBreak now)
  then show ?thesis using assms startAt_hasObserver by (simp add: startShortBreak_def)
next
  case (SStartLongBreak now)
  then show ?thesis using assms startAt_hasObserver by (simp add: startLongBreak_def)
next
  case (STick h now)
  then show ?thesis using assms fire_hasObserver(1) by simp
next
  case (SExpire h)
  then show ?thesis using assms fire_hasObserver(2) by simp
qed

lemma Persistent_calls_forward:
  "hasObserver p \<Longrightarrow>
   Persistent_calls xs (wr\<lparr> sequencer := Some p \<rparr>, s) acc =
     map_option (lift wr) (runSeqOps xs (p, s) acc)"
proof (induction xs arbitrary: p s acc)
  case Nil
  then show ?case by (simp add: lift_def)
next
  case (Cons x xs)
  show ?case
  proof (cases "runSeqOp x (p, s)")
    case None
    then show ?thesis by simp
  next
    case (Some r)
    obtain out p1 s1 evs1 where r: "r = (out, (p1, s1), evs1)" by (cases r) auto
    have h: "hasObserver p1"
      using runSeqOp_hasObserver [of x p s out p1 s1 evs1] Some r Cons.prems by simp
    show ?thesis
      using Some r Cons.IH [OF h, of s1 "acc @ evs1"] Cons.prems
      by (simp add: forward_def)
  qed
qed

lemma onTimer_timer:
  "onTimer f (p, s) = (out, (p', s'), evs) \<Longrightarrow> timer p \<noteq> None \<Longrightarrow> timer p' \<noteq> None"
  by (auto split: option.splits prod.splits)

lemma start_timer:
  assumes "PomodoroTimer_start now (p, s) = (out, (p', s'), evs)" "timer p \<noteq> None"
  shows "timer p' \<noteq> None"
proof (cases "startOfCycle p")
  case True
  then have "onTimer (Timer_start now) (p\<lparr> startOfCycle := False \<rparr>, s) = (out, (p', s'), evs)"
    using assms by simp
  then show ?thesis using onTimer_timer [of _ "p\<lparr> startOfCycle := False \<rparr>"] assms(2) by fastforce
next
  case False
  show ?thesis
  proof (cases "timerGenerator p")
    case None
    then show ?thesis using assms False by simp
  next
    case (Some g)
    obtain p1 s1 evs1 where n: "generatorNext g (p, s) = ((p1, s1), evs1)"
      by (cases "generatorNext g (p, s)") auto
    obtain out2 p2 s2 evs2 where o: "onTimer (Timer_start now) (p1, s1) = (out2, (p2, s2), evs2)"
      by (cases "onTimer (Timer_start now) (p1, s1)") auto
    have "p' = p2" using assms False Some n o by simp
    moreover have "timer p1 \<noteq> None" using generatorNext_fields(5) [of g p s] n by simp
    ultimately show ?thesis using onTimer_timer [OF o] by simp
  qed
qed

lemma setPhase_timer:
  assumes "setPhase ph (p, s) = Some (out, (p', s'), evs)" "timer p \<noteq> None"
  shows "timer p' \<noteq> None"
proof (cases out)
  case Returned
  then show ?thesis using setPhase_leaves_fresh [of ph p s p' s' evs] assms by simp
next
  case (Thrown e)
  then show ?thesis
    using assms by (auto simp: setPhase_def split: if_splits option.splits prod.splits)
qed

lemma startAt_timer:
  assumes "startAt ph now (p, s) = Some (out, (p', s'), evs)" "timer p \<noteq> None"
  shows "timer p' \<noteq> None"
proof (cases "setPhase ph (p, s)")
  case None
  then show ?thesis using assms by (simp add: startAt_def)
next
  case (Some r)
  obtain out1 p1 s1 evs1 where r: "r = (out1, (p1, s1), evs1)" by (cases r) auto
  have h1: "timer p1 \<noteq> None"
    using setPhase_timer [of ph p s out1 p1 s1 evs1] Some r assms(2) by simp
  show ?thesis
  proof (cases out1)
    case Returned
    obtain out2 p2 s2 evs2 where st: "PomodoroTimer_start now (p1, s1) = (out2, (p2, s2), evs2)"
      by (cases "PomodoroTimer_start now (p1, s1)") auto
    have "p' = p2" using assms Some r Returned st by (simp add: startAt_def)
    then show ?thesis using start_timer [OF st h1] by simp
  next
    case (Thrown e)
    then show ?thesis using assms Some r h1 by (simp add: startAt_def)
  qed
qed

lemma fire_timer:
  "PomodoroTimer_fireTick h now (p, s) = (out, (p', s'), evs) \<Longrightarrow> timer p \<noteq> None \<Longrightarrow>
   timer p' \<noteq> None"
  "PomodoroTimer_fireExpire h (p, s) = (out, (p', s'), evs) \<Longrightarrow> timer p \<noteq> None \<Longrightarrow>
   timer p' \<noteq> None"
  by (auto split: option.splits prod.splits if_splits)

lemma runSeqOp_timer:
  assumes "runSeqOp x (p, s) = Some (out, (p', s'), evs)" "timer p \<noteq> None"
  shows "timer p' \<noteq> None"
proof (cases x)
  case (SStart now)
  then show ?thesis using assms start_timer by simp
next
  case SStop
  then show ?thesis using assms onTimer_timer by (simp add: PomodoroTimer_stop_def)
next
  case (SPause now)
  then show ?thesis using assms onTimer_timer by (simp add: PomodoroTimer_pause_def)
next
  case (SResume now)
  then show ?thesis using assms onTimer_timer by (simp add: PomodoroTimer_resume_def)
next
  case (SReset now)
  then show ?thesis using assms onTimer_timer by (simp add: PomodoroTimer_reset_def)
next
  case (SSetPhase ph)
  then show ?thesis using assms setPhase_timer by simp
next
  case (SStartCycle now)
  then show ?thesis using assms startAt_timer by (simp add: startCycle_def)
next
  case (SStartFocus now)
  then show ?thesis using assms startAt_timer by (simp add: startFocus_def startCycle_def)
next
  case (SStartShortBreak now)
  then show ?thesis using assms startAt_timer by (simp add: startShortBreak_def)
next
  case (SStartLongBreak now)
  then show ?thesis using assms startAt_timer by (simp add: startLongBreak_def)
next
  case (STick h now)
  then show ?thesis using assms fire_timer(1) by simp
next
  case (SExpire h)
  then show ?thesis using assms fire_timer(2) by simp
qed

lemma wellBuilt_initial: "wellBuilt \<lparr> sequencer = None \<rparr>"
  by (simp add: wellBuilt_def)

lemma wellBuilt_call:
  assumes "wellBuilt wr" "Persistent_call x (wr, s) = Some (out, (wr', s'), evs)"
  shows "wellBuilt wr'"
proof (cases "sequencer wr")
  case None
  then show ?thesis using assms by (auto simp: wellBuilt_def)
next
  case (Some p)
  then have t: "timer p \<noteq> None" using assms(1) by (simp add: wellBuilt_def)
  obtain r where r: "runSeqOp x (p, s) = Some r"
    using assms(2) Some by (cases "runSeqOp x (p, s)") auto
  obtain out1 p1 s1 evs1 where r1: "r = (out1, (p1, s1), evs1)" by (cases r) auto
  have "timer p1 \<noteq> None" using runSeqOp_timer [of x p s out1 p1 s1 evs1] r r1 t by simp
  moreover have "wr' = wr\<lparr> sequencer := Some p1 \<rparr>" using assms(2) Some r r1 by simp
  ultimately show ?thesis by (simp add: wellBuilt_def)
qed

lemma dispose_timer:
  "dispose (p, s) = (out, (p', s'), evs) \<Longrightarrow> timer p \<noteq> None \<Longrightarrow> timer p' \<noteq> None"
  by (auto split: option.splits prod.splits)

lemma wellBuilt_change:
  assumes "wellBuilt wr" "onSettingsChange st (wr, s) = Some (out, (wr', s'), evs)"
  shows "wellBuilt wr'"
proof -
  have new: "\<And>s1 out2 p2 s2 evs2. PomodoroTimer_new st Focus s1 = Some (Returned, (p2, s2), evs2)
      \<Longrightarrow> timer p2 \<noteq> None"
    using setPhase_leaves_fresh [of Focus "blank st"] by (simp add: PomodoroTimer_new_def)
  show ?thesis
  proof (cases "sequencer wr")
    case None
    then show ?thesis
      using assms(2) new
      by (auto simp: wellBuilt_def split: option.splits Outcome.splits prod.splits)
  next
    case (Some old)
    then have t: "timer old \<noteq> None" using assms(1) by (simp add: wellBuilt_def)
    obtain out1 old1 s1 evs1 where d: "dispose (old, s) = (out1, (old1, s1), evs1)"
      by (cases "dispose (old, s)") auto
    have t1: "timer old1 \<noteq> None" using dispose_timer [OF d t] .
    show ?thesis
      using assms(2) Some d t1 new
      by (auto simp: wellBuilt_def simp del: dispose.simps
            split: option.splits Outcome.splits prod.splits)
  qed
qed

lemma construct_at_Focus:
  assumes "case longBreak_interval st of None \<Rightarrow> True | Some n \<Rightarrow> 0 \<le> n"
  shows "setPhase Focus (blank st, s) =
     Some (Returned,
       (\<lparr> settings = st, timer = Some (freshTimer st Focus), phase = Some Focus,
          nextPhase = Some ShortBreak, timerGenerator = Some (AtFocus 0), startOfCycle = True,
          hasObserver = False \<rparr>, s),
       [CycleReset Focus])"
proof -
  let ?p = "(blank st)\<lparr> timerGenerator := Some AtEntry, phase := None \<rparr>"
  have lt: "loopTest (longBreak_interval (settings ?p)) 0"
    using assms by (simp add: loopTest_0 blank_def)
  have next1: "generatorNext AtEntry (?p, s) =
      ((\<lparr> settings = st, timer = Some (freshTimer st Focus), phase = Some Focus,
          nextPhase = Some ShortBreak, timerGenerator = Some (AtFocus 0), startOfCycle = False,
          hasObserver = False \<rparr>, s), [])"
    using lt by (simp add: blank_def atLoopTest_def freshTimer_def)
  have "fastForward Focus (?p, s) [] = Some (fst (generatorNext AtEntry (?p, s)),
      [] @ snd (generatorNext AtEntry (?p, s)))"
    by (rule fastForward_Focus [OF _ _ lt]) (simp_all add: blank_def)
  then show ?thesis
    unfolding next1 by (simp add: setPhase_def blank_def)
qed

lemma dispose_stops:
  "timer old = Some t \<Longrightarrow>
   dispose (old, s) =
     (Returned,
      (old\<lparr> timer := Some ((fst (fst (Timer_stop (t, s))))\<lparr> hasListeners := False \<rparr>) \<rparr>,
       snd (fst (Timer_stop (t, s)))),
      relay old t (snd (Timer_stop (t, s))))"
  by (simp add: Let_def split: prod.splits)

lemma forward_no_reset: "CycleReset ph \<notin> set (forward p (relay q t evs))"
  by (auto simp: forward_def relay_def)

lemma onSettingsChange_first:
  assumes "case longBreak_interval st of None \<Rightarrow> True | Some n \<Rightarrow> 0 \<le> n"
    and "sequencer wr = None"
  shows "onSettingsChange st (wr, s) =
     Some (Returned,
       (wr\<lparr> sequencer := Some \<lparr> settings = st, timer = Some (freshTimer st Focus),
          phase = Some Focus, nextPhase = Some ShortBreak, timerGenerator = Some (AtFocus 0),
          startOfCycle = True, hasObserver = True \<rparr> \<rparr>, s), [])"
  using assms(2) construct_at_Focus [OF assms(1), of s]
  by (simp add: PomodoroTimer_new_def forward_def)

lemma onSettingsChange_replace:
  assumes "case longBreak_interval st of None \<Rightarrow> True | Some n \<Rightarrow> 0 \<le> n"
    and "sequencer wr = Some old" "timer old = Some t"
  shows "onSettingsChange st (wr, s) =
     Some (Returned,
       (wr\<lparr> sequencer := Some \<lparr> settings = st, timer = Some (freshTimer st Focus),
          phase = Some Focus, nextPhase = Some ShortBreak, timerGenerator = Some (AtFocus 0),
          startOfCycle = True, hasObserver = True \<rparr> \<rparr>, snd (fst (Timer_stop (t, s)))),
       forward old (relay old t (snd (Timer_stop (t, s)))))"
  using assms(2) dispose_stops [OF assms(3), of s]
    construct_at_Focus [OF assms(1), of "snd (fst (Timer_stop (t, s)))"]
  by (simp add: PomodoroTimer_new_def forward_def del: dispose.simps Timer_stop.simps)

text \<open>
  C3, amended. A configuration change whose interval is absent or not negative, received
  by a well-built wrapper (as every wrapper is: \<open>wellBuilt_initial\<close>,
  \<open>wellBuilt_change\<close>, \<open>wellBuilt_call\<close>): the wrapper stops the timer of the
  current sequencer, forwarding the events of that stop, builds a new sequencer at Focus
  from the new settings and registers itself on it. The
  \<^verbatim>\<open>cycle:reset\<close> that the new sequencer emits while it is built reaches no
  observer; from then on, whatever calls and callback firings follow, the wrapper emits
  exactly the events the new sequencer emits, unchanged.
\<close>

theorem settings_change_rebuilds:
  assumes "case longBreak_interval st of None \<Rightarrow> True | Some n \<Rightarrow> 0 \<le> n"
    and "wellBuilt wr"
  shows "\<exists>p s' evs.
     onSettingsChange st (wr, s) = Some (Returned, (wr\<lparr> sequencer := Some p \<rparr>, s'), evs) \<and>
     (case sequencer wr of
        None \<Rightarrow> s' = s \<and> evs = []
      | Some old \<Rightarrow>
          (\<exists>t. timer old = Some t \<and> s' = snd (fst (Timer_stop (t, s))) \<and>
               evs = forward old (relay old t (snd (Timer_stop (t, s)))))) \<and>
     PomodoroTimer_new st Focus s' =
       Some (Returned, (p\<lparr> hasObserver := False \<rparr>, s'), [CycleReset Focus]) \<and>
     settings p = st \<and> phase p = Some Focus \<and> startOfCycle p \<and> hasObserver p \<and>
     wellBuilt (wr\<lparr> sequencer := Some p \<rparr>) \<and>
     CycleReset Focus \<notin> set evs \<and>
     (\<forall>xs acc. Persistent_calls xs (wr\<lparr> sequencer := Some p \<rparr>, s') acc =
        map_option (lift wr) (runSeqOps xs (p, s') acc))"
proof -
  let ?p = "\<lparr> settings = st, timer = Some (freshTimer st Focus),
          phase = Some Focus, nextPhase = Some ShortBreak, timerGenerator = Some (AtFocus 0),
          startOfCycle = True, hasObserver = True \<rparr>"
  have fw: "\<forall>xs acc s'. Persistent_calls xs (wr\<lparr> sequencer := Some ?p \<rparr>, s') acc =
        map_option (lift wr) (runSeqOps xs (?p, s') acc)"
    by (simp add: Persistent_calls_forward)
  have new: "\<And>s'. PomodoroTimer_new st Focus s' =
       Some (Returned, (?p\<lparr> hasObserver := False \<rparr>, s'), [CycleReset Focus])"
    using construct_at_Focus [OF assms(1)] by (simp add: PomodoroTimer_new_def)
  have wb: "wellBuilt (wr\<lparr> sequencer := Some ?p \<rparr>)"
    by (simp add: wellBuilt_def)
  show ?thesis
  proof (cases "sequencer wr")
    case None
    show ?thesis
      apply (rule exI [of _ ?p], rule exI [of _ s], rule exI [of _ "[]"])
      using onSettingsChange_first [OF assms(1) None, of s] None new fw wb by simp
  next
    case (Some old)
    then obtain t where t: "timer old = Some t" using assms(2) by (auto simp: wellBuilt_def)
    show ?thesis
      apply (rule exI [of _ ?p], rule exI [of _ "snd (fst (Timer_stop (t, s)))"],
          rule exI [of _ "forward old (relay old t (snd (Timer_stop (t, s))))"])
      using onSettingsChange_replace [OF assms(1) Some t, of s] Some t new fw wb forward_no_reset
      by (simp del: Timer_stop.simps onSettingsChange.simps)
  qed
qed

theorem settings_change_rebuilds_witness:
  "(case longBreak_interval (sampleSettings None) of None \<Rightarrow> True | Some n \<Rightarrow> 0 \<le> n) \<and>
   wellBuilt sampleWrapper \<and>
   (\<exists>p. onSettingsChange (sampleSettings None) (sampleWrapper, emptyScheduler) =
           Some (Returned, (sampleWrapper\<lparr> sequencer := Some p \<rparr>, emptyScheduler), []) \<and>
        settings p = sampleSettings None \<and> phase p = Some Focus \<and> hasObserver p)"
proof -
  have hyp: "case longBreak_interval (sampleSettings None) of None \<Rightarrow> True | Some n \<Rightarrow> 0 \<le> n"
    "wellBuilt sampleWrapper"
    by (simp_all add: sampleSettings_def sampleWrapper_def sampleAtShortBreak_def wellBuilt_def)
  show ?thesis
    using settings_change_rebuilds [OF hyp, of emptyScheduler] hyp
    by (auto simp: sampleWrapper_def sampleAtShortBreak_def relay_def forward_def
          simp del: onSettingsChange.simps)
qed

text \<open>
  C3, as stated, fails: on the first configuration (25, 5 and 15 minutes, interval 4)
  the new sequencer emits \<^verbatim>\<open>cycle:reset\<close> for Focus while it is constructed, and the
  wrapper emits nothing.
\<close>

theorem construction_reset_not_forwarded:
  "map_option (snd \<circ> snd) (PomodoroTimer_new (sampleSettings (Some 4)) Focus emptyScheduler)
     = Some [CycleReset Focus] \<and>
   map_option (snd \<circ> snd)
     (onSettingsChange (sampleSettings (Some 4)) (\<lparr> sequencer = None \<rparr>, emptyScheduler))
     = Some []"
  using construct_at_Focus [of "sampleSettings (Some 4)" emptyScheduler]
    onSettingsChange_first [of "sampleSettings (Some 4)" "\<lparr> sequencer = None \<rparr>" emptyScheduler]
  by (simp add: PomodoroTimer_new_def sampleSettings_def del: onSettingsChange.simps)

end
